theory Spec2Isabelle
  imports Complex_Main
begin

section \<open>JavaScript values\<close>

text \<open>
  The manager is written in TypeScript and runs on a JavaScript engine. Cells, record
  fields and filter operands are JavaScript values. Numbers are modelled by their exact
  value (a rational), with the three special numbers of the language; the two zeros are
  not told apart, which no operator of the source can observe. A regular expression is
  given by its source text, an array by its elements, and a literal object by its own
  properties. The last kind of value, \<open>JBuiltin\<close>, is an object that the engine provides:
  \<^verbatim>\<open>Object.prototype\<close> and the functions that it holds, each one named by the property
  under which it is found. The source never writes such a value, but it meets one when
  it reads a property that an object inherits.
\<close>

datatype jsnum = NaN | NegInf | Fin rat | PosInf

datatype jsval =
    JUndefined
  | JNull
  | JBool bool
  | JNum jsnum
  | JStr string
  | JRegExp string
  | JArr "jsval list"
  | JObj "(string \<times> jsval) list"
  | JBuiltin string

datatype error =
    SheetNotFound string
  | InvalidCols "string list"
  | NoHeaderFound string
  | TypeError

text \<open>
  What the engine supplies and the source does not define: the reading of a string as a
  number, the printing of a finite number or of an object as a string, the matching of a
  regular expression against a string, and the properties of the objects that are not
  plain: what a read of the property \<open>k\<close> finds on a regular expression, an array or a
  function that has become the prototype of an object (\<open>None\<close> when the read throws a
  \<^verbatim>\<open>TypeError\<close>, as an accessor of \<^verbatim>\<open>RegExp.prototype\<close> does), and whether an assignment to
  the property \<open>k\<close> of an object with such a prototype is accepted (it throws a
  \<^verbatim>\<open>TypeError\<close> otherwise: the body of a class is strict code). Every definition
  that needs one of them takes the engine as its first argument, and every theorem holds
  for every engine.
\<close>

record engine =
  StringToNumber :: "string \<Rightarrow> jsnum"
  ToString :: "jsval \<Rightarrow> string"
  RegExpExec :: "string \<Rightarrow> string \<Rightarrow> bool"
  ForeignRead :: "jsval \<Rightarrow> string \<Rightarrow> jsval option"
  ForeignAssign :: "jsval \<Rightarrow> string \<Rightarrow> bool"

text \<open>Truthiness, and the operator \<^verbatim>\<open>a || b\<close>.\<close>

fun truthy :: "jsval \<Rightarrow> bool" where
  "truthy JUndefined = False"
| "truthy JNull = False"
| "truthy (JBool b) = b"
| "truthy (JNum n) = (n \<noteq> NaN \<and> n \<noteq> Fin 0)"
| "truthy (JStr s) = (s \<noteq> [])"
| "truthy (JRegExp r) = True"
| "truthy (JArr xs) = True"
| "truthy (JObj kvs) = True"
| "truthy (JBuiltin n) = True"

definition js_or :: "jsval \<Rightarrow> jsval \<Rightarrow> jsval" where
  "js_or a b = (if truthy a then a else b)"

fun is_object :: "jsval \<Rightarrow> bool" where
  "is_object (JRegExp r) = True"
| "is_object (JArr xs) = True"
| "is_object (JObj kvs) = True"
| "is_object (JBuiltin n) = True"
| "is_object v = False"

fun nullish :: "jsval \<Rightarrow> bool" where
  "nullish JUndefined = True"
| "nullish JNull = True"
| "nullish v = False"

text \<open>Comparison of numbers: \<open>None\<close> is the undefined result that a \<open>NaN\<close> gives.\<close>

fun num_less :: "jsnum \<Rightarrow> jsnum \<Rightarrow> bool option" where
  "num_less NaN b = None"
| "num_less a NaN = None"
| "num_less PosInf b = Some False"
| "num_less a NegInf = Some False"
| "num_less NegInf b = Some True"
| "num_less a PosInf = Some True"
| "num_less (Fin x) (Fin y) = Some (x < y)"

definition num_eq :: "jsnum \<Rightarrow> jsnum \<Rightarrow> bool" where
  "num_eq a b = (a \<noteq> NaN \<and> b \<noteq> NaN \<and> a = b)"

text \<open>
  Conversion to a string, which is also the conversion of a value to a property name:
  text is kept as it is, the constants have their names, and the engine prints the finite
  numbers and the objects.
\<close>

definition to_string :: "engine \<Rightarrow> jsval \<Rightarrow> string" where
  "to_string h v =
     (case v of
        JStr s \<Rightarrow> s
      | JUndefined \<Rightarrow> ''undefined''
      | JNull \<Rightarrow> ''null''
      | JBool b \<Rightarrow> (if b then ''true'' else ''false'')
      | JNum NaN \<Rightarrow> ''NaN''
      | JNum PosInf \<Rightarrow> ''Infinity''
      | JNum NegInf \<Rightarrow> ''-Infinity''
      | _ \<Rightarrow> ToString h v)"

text \<open>
  Conversion to a primitive and to a number. An object (a regular expression, an array,
  a literal object, a built-in) converts to the string the engine prints for it.
\<close>

definition ToPrimitive :: "engine \<Rightarrow> jsval \<Rightarrow> jsval" where
  "ToPrimitive h v = (if is_object v then JStr (ToString h v) else v)"

fun prim_number :: "engine \<Rightarrow> jsval \<Rightarrow> jsnum" where
  "prim_number h JUndefined = NaN"
| "prim_number h JNull = Fin 0"
| "prim_number h (JBool b) = (if b then Fin 1 else Fin 0)"
| "prim_number h (JNum n) = n"
| "prim_number h (JStr s) = StringToNumber h s"
| "prim_number h v = StringToNumber h (ToString h v)"

definition ToNumber :: "engine \<Rightarrow> jsval \<Rightarrow> jsnum" where
  "ToNumber h v = prim_number h (ToPrimitive h v)"

text \<open>
  Strict equality \<^verbatim>\<open>a === b\<close>. Two objects are strictly equal only when they are the same
  object. The values compared by the source are a cell read from the sheet and an operand
  given by the caller: a regular expression, an array or a literal object on one side is
  never the same object as the value on the other side, while a built-in is the same
  object wherever it is met.
\<close>

fun strict_eq :: "jsval \<Rightarrow> jsval \<Rightarrow> bool" where
  "strict_eq JUndefined JUndefined = True"
| "strict_eq JNull JNull = True"
| "strict_eq (JBool a) (JBool b) = (a = b)"
| "strict_eq (JNum a) (JNum b) = num_eq a b"
| "strict_eq (JStr a) (JStr b) = (a = b)"
| "strict_eq (JBuiltin a) (JBuiltin b) = (a = b)"
| "strict_eq a b = False"

text \<open>Loose equality \<^verbatim>\<open>a == b\<close>, with the coercions of the language.\<close>

definition loose_eq :: "engine \<Rightarrow> jsval \<Rightarrow> jsval \<Rightarrow> bool" where
  "loose_eq h a b =
     (if is_object a \<and> is_object b then strict_eq a b
      else if nullish a \<or> nullish b then nullish a \<and> nullish b
      else (case (ToPrimitive h a, ToPrimitive h b) of
              (JStr x, JStr y) \<Rightarrow> x = y
            | (x, y) \<Rightarrow> num_eq (prim_number h x) (prim_number h y)))"

text \<open>
  The relational comparison behind \<^verbatim>\<open><\<close>, \<^verbatim>\<open>>\<close>, \<^verbatim>\<open><=\<close> and \<^verbatim>\<open>>=\<close>: two strings compare
  by their code units, anything else as numbers.
\<close>

fun str_less :: "string \<Rightarrow> string \<Rightarrow> bool" where
  "str_less [] [] = False"
| "str_less [] (y # ys) = True"
| "str_less (x # xs) [] = False"
| "str_less (x # xs) (y # ys) =
     (if (of_char x :: nat) < of_char y then True
      else if (of_char y :: nat) < of_char x then False
      else str_less xs ys)"

definition js_less :: "engine \<Rightarrow> jsval \<Rightarrow> jsval \<Rightarrow> bool option" where
  "js_less h a b =
     (case (ToPrimitive h a, ToPrimitive h b) of
        (JStr x, JStr y) \<Rightarrow> Some (str_less x y)
      | (x, y) \<Rightarrow> num_less (prim_number h x) (prim_number h y))"

definition js_gt :: "engine \<Rightarrow> jsval \<Rightarrow> jsval \<Rightarrow> bool" where
  "js_gt h a b = (js_less h b a = Some True)"

definition js_gte :: "engine \<Rightarrow> jsval \<Rightarrow> jsval \<Rightarrow> bool" where
  "js_gte h a b = (js_less h a b = Some False)"

definition js_lt :: "engine \<Rightarrow> jsval \<Rightarrow> jsval \<Rightarrow> bool" where
  "js_lt h a b = (js_less h a b = Some True)"

definition js_lte :: "engine \<Rightarrow> jsval \<Rightarrow> jsval \<Rightarrow> bool" where
  "js_lte h a b = (js_less h b a = Some False)"

text \<open>\<^verbatim>\<open>Math.min\<close> and \<^verbatim>\<open>Math.max\<close> over the argument list.\<close>

definition num_min :: "jsnum \<Rightarrow> jsnum \<Rightarrow> jsnum" where
  "num_min a b =
     (if a = NaN \<or> b = NaN then NaN else if num_less b a = Some True then b else a)"

definition num_max :: "jsnum \<Rightarrow> jsnum \<Rightarrow> jsnum" where
  "num_max a b =
     (if a = NaN \<or> b = NaN then NaN else if num_less a b = Some True then b else a)"

definition Math_min :: "engine \<Rightarrow> jsval list \<Rightarrow> jsnum" where
  "Math_min h args = foldl num_min PosInf (map (ToNumber h) args)"

definition Math_max :: "engine \<Rightarrow> jsval list \<Rightarrow> jsnum" where
  "Math_max h args = foldl num_max NegInf (map (ToNumber h) args)"

text \<open>
  The equality of \<^verbatim>\<open>Array.prototype.includes\<close>: strict equality, except that \<open>NaN\<close>
  is found.
\<close>

definition same_value_zero :: "jsval \<Rightarrow> jsval \<Rightarrow> bool" where
  "same_value_zero a b = (strict_eq a b \<or> (a = JNum NaN \<and> b = JNum NaN))"

fun is_infix :: "string \<Rightarrow> string \<Rightarrow> bool" where
  "is_infix p [] = (p = [])"
| "is_infix p (c # cs) = (take (length p) (c # cs) = p \<or> is_infix p cs)"

section \<open>Objects\<close>

text \<open>
  A record, a where-clause and an operator map are plain objects: an object with its own
  properties, in the order in which the engine lists them (\<^verbatim>\<open>Object.keys\<close>,
  \<^verbatim>\<open>Object.entries\<close>), and with the prototype \<^verbatim>\<open>Object.prototype\<close>. The engine lists the
  names that are array indices first, in ascending numeric order, and then the other names
  in the order of their creation. Each name has one entry; a read takes the first entry
  of a name.
\<close>

type_synonym obj = "(string \<times> jsval) list"

definition is_digit :: "char \<Rightarrow> bool" where
  "is_digit c = (48 \<le> (of_char c :: nat) \<and> (of_char c :: nat) \<le> 57)"

definition digits_value :: "string \<Rightarrow> int" where
  "digits_value s = foldl (\<lambda>acc c. 10 * acc + ((of_char c :: int) - 48)) 0 s"

definition is_array_index :: "string \<Rightarrow> bool" where
  "is_array_index s =
     (s \<noteq> [] \<and> list_all is_digit s \<and> (s = ''0'' \<or> hd s \<noteq> CHR ''0'')
      \<and> digits_value s < 4294967295)"

text \<open>
  A read of a property that is not an own property goes on to the prototype.
  \<^verbatim>\<open>Object.prototype\<close> holds eleven functions and the accessor \<^verbatim>\<open>__proto__\<close>, whose getter
  gives the prototype of the object that is read. So \<^verbatim>\<open>data[header]\<close> on a plain object
  gives the own property of that name if there is one, else the inherited member of that
  name if there is one, else \<open>undefined\<close>.
\<close>

definition the_prototype :: jsval where
  "the_prototype = JBuiltin ''Object.prototype''"

definition prototype_functions :: "string list" where
  "prototype_functions =
     [''constructor'', ''hasOwnProperty'', ''isPrototypeOf'', ''propertyIsEnumerable'',
      ''toLocaleString'', ''toString'', ''valueOf'', ''__defineGetter__'',
      ''__defineSetter__'', ''__lookupGetter__'', ''__lookupSetter__'']"

definition inherited :: "jsval \<Rightarrow> string \<Rightarrow> jsval" where
  "inherited proto k =
     (if k = ''__proto__'' then proto
      else if k \<in> set prototype_functions then JBuiltin k
      else JUndefined)"

definition obj_get :: "obj \<Rightarrow> string \<Rightarrow> jsval" where
  "obj_get ob k = (case map_of ob k of None \<Rightarrow> inherited the_prototype k | Some v \<Rightarrow> v)"

text \<open>The definition of an own property, or the change of its value.\<close>

fun obj_insert :: "string \<Rightarrow> jsval \<Rightarrow> obj \<Rightarrow> obj" where
  "obj_insert k v [] = [(k, v)]"
| "obj_insert k v ((k', v') # rest) =
     (if is_array_index k \<and>
         (\<not> is_array_index k' \<or> digits_value k < digits_value k')
      then (k, v) # (k', v') # rest
      else (k', v') # obj_insert k v rest)"

definition obj_set :: "string \<Rightarrow> jsval \<Rightarrow> obj \<Rightarrow> obj" where
  "obj_set k v ob =
     (if k \<in> set (map fst ob)
      then map (\<lambda>(k', v'). if k' = k then (k', v) else (k', v')) ob
      else obj_insert k v ob)"

text \<open>
  The object that \<^verbatim>\<open>deserializeRow\<close> builds starts as \<^verbatim>\<open>{}\<close> and is filled by assignments
  \<^verbatim>\<open>total[colName] = value\<close>. An assignment to a name that is not an own property looks
  the name up on the prototype chain first. For \<^verbatim>\<open>__proto__\<close> it finds the accessor of
  \<^verbatim>\<open>Object.prototype\<close>, whose setter defines no property: it makes the value the prototype
  of the object when the value is an object or \<open>null\<close>, and does nothing otherwise. So an
  object in general is its own properties together with its prototype: \<^verbatim>\<open>Object.prototype\<close>,
  \<open>null\<close>, a literal object, or a regular expression, an array or a function, whose
  properties the engine supplies.
\<close>

type_synonym jsobject = "obj \<times> jsval"

definition plain :: "obj \<Rightarrow> jsobject" where
  "plain ob = (ob, the_prototype)"

definition foreign :: "jsval \<Rightarrow> bool" where
  "foreign proto =
     (case proto of
        JRegExp r \<Rightarrow> True
      | JArr xs \<Rightarrow> True
      | JBuiltin n \<Rightarrow> n \<noteq> ''Object.prototype''
      | _ \<Rightarrow> False)"

definition get_property :: "engine \<Rightarrow> jsobject \<Rightarrow> string \<Rightarrow> error + jsval" where
  "get_property h ob k =
     (case map_of (fst ob) k of
        Some v \<Rightarrow> Inr v
      | None \<Rightarrow>
          (case snd ob of
             JNull \<Rightarrow> Inr JUndefined
           | JObj kvs \<Rightarrow>
               Inr (case map_of kvs k of None \<Rightarrow> inherited (snd ob) k | Some v \<Rightarrow> v)
           | proto \<Rightarrow>
               if foreign proto \<and> k \<noteq> ''__proto__''
               then (case ForeignRead h proto k of
                       None \<Rightarrow> Inl TypeError
                     | Some v \<Rightarrow> Inr v)
               else Inr (inherited proto k)))"

text \<open>
  Whether the lookup of \<^verbatim>\<open>__proto__\<close> from a prototype reaches the accessor of
  \<^verbatim>\<open>Object.prototype\<close>: not from \<open>null\<close>, and not through a literal object that has an own
  property of that name.
\<close>

definition proto_setter_reached :: "jsval \<Rightarrow> bool" where
  "proto_setter_reached proto =
     (case proto of
        JNull \<Rightarrow> False
      | JObj kvs \<Rightarrow> map_of kvs ''__proto__'' = None
      | _ \<Rightarrow> True)"

definition set_property ::
  "engine \<Rightarrow> string \<Rightarrow> jsval \<Rightarrow> jsobject \<Rightarrow> error + jsobject" where
  "set_property h k v ob =
     (if map_of (fst ob) k = None \<and> k = ''__proto__'' \<and> proto_setter_reached (snd ob)
      then Inr (fst ob, if is_object v \<or> v = JNull then v else snd ob)
      else if map_of (fst ob) k = None \<and> foreign (snd ob) \<and> ForeignAssign h (snd ob) k = False
      then Inl TypeError
      else Inr (obj_set k v (fst ob), snd ob))"

text \<open>An array read \<^verbatim>\<open>xs[i]\<close>: \<open>undefined\<close> outside the array.\<close>

definition arr_get :: "jsval list \<Rightarrow> int \<Rightarrow> jsval" where
  "arr_get xs i = (if 0 \<le> i \<and> i < int (length xs) then xs ! nat i else JUndefined)"

section \<open>The row codec\<close>

text \<open>
  The headers object maps a position to a header; it is given by its entries in the order
  of \<^verbatim>\<open>Object.entries\<close>. A header is declared to be a string, but it is the cell of the
  header row as the sheet gives it, so it is kept as a value. Where the source uses a
  header as a property name, \<^verbatim>\<open>data[header]\<close> and \<^verbatim>\<open>total[colName]\<close>, the name is the header
  converted to a string; where it compares a header with a column name,
  \<^verbatim>\<open>Object.values(headers).includes(colName)\<close> and \<^verbatim>\<open>header === colName\<close>, only the header
  that is this very string is equal to it.
\<close>

type_synonym headers = "(nat \<times> jsval) list"

text \<open>\<^verbatim>\<open>map\<close> and \<^verbatim>\<open>reduce\<close> with a callback that can throw: the first throw ends the loop.\<close>

fun map_result :: "('a \<Rightarrow> error + 'b) \<Rightarrow> 'a list \<Rightarrow> error + 'b list" where
  "map_result f [] = Inr []"
| "map_result f (x # xs) =
     (case f x of
        Inl e \<Rightarrow> Inl e
      | Inr y \<Rightarrow> (case map_result f xs of Inl e \<Rightarrow> Inl e | Inr ys \<Rightarrow> Inr (y # ys)))"

fun reduce_result :: "('s \<Rightarrow> 'a \<Rightarrow> error + 's) \<Rightarrow> 's \<Rightarrow> 'a list \<Rightarrow> error + 's" where
  "reduce_result f acc [] = Inr acc"
| "reduce_result f acc (x # xs) =
     (case f acc x of
        Inl e \<Rightarrow> Inl e
      | Inr acc' \<Rightarrow> reduce_result f acc' xs)"

definition serializeRow ::
  "engine \<Rightarrow> headers \<Rightarrow> jsobject \<Rightarrow> jsval list \<Rightarrow> error + jsval list" where
  "serializeRow h hs data currentValues =
     map_result (\<lambda>(index, header).
                   case get_property h data (to_string h header) of
                     Inl e \<Rightarrow> Inl e
                   | Inr v \<Rightarrow>
                       Inr (js_or (js_or v (arr_get currentValues (int index - 1)))
                                  (JStr '''')))
                hs"

text \<open>
  In \<^verbatim>\<open>deserializeRow\<close> the column names are strings when the caller gives some, and the
  header cells themselves otherwise, so that \<^verbatim>\<open>colNames.includes(colName)\<close> then finds
  every header.
\<close>

definition deserializeRow ::
  "engine \<Rightarrow> headers \<Rightarrow> jsobject \<Rightarrow> jsval list \<Rightarrow> string list \<Rightarrow> error + jsobject" where
  "deserializeRow h hs data currentValues colNames =
     (let invalidCols = filter (\<lambda>colName. JStr colName \<notin> set (map snd hs)) colNames
      in if length invalidCols > 0 then Inl (InvalidCols invalidCols)
         else
           let colNames' = (if length colNames = 0 then map snd hs else map JStr colNames)
           in reduce_result
                (\<lambda>total (index, colName).
                   if colName \<in> set colNames'
                   then (case get_property h data (to_string h colName) of
                           Inl e \<Rightarrow> Inl e
                         | Inr v \<Rightarrow>
                             set_property h (to_string h colName)
                               (js_or v (arr_get currentValues (int index - 1))) total)
                   else Inr total)
                (plain []) hs)"

section \<open>The backing store\<close>

text \<open>
  Modelled from the spec: the spreadsheet service that holds the table is not part of the
  repository. The contract of the backing store (reading a region or a cell, writing a
  region, clearing a region, the last populated row and column, deleting a row) is
  modelled by a grid of cells held in memory, as the test double of the repository does.
  Positions are 1-based, a cell outside the grid is blank (the empty string), and no
  operation of the store fails. A cell holds text, a number or a boolean, or whatever
  value the manager has written to it; a cell that the service would give as a date is
  outside the model.
\<close>

type_synonym Sheet = "jsval list list"

type_synonym region = "nat \<times> nat \<times> nat \<times> nat"

definition blank :: jsval where
  "blank = JStr []"

definition getValue :: "Sheet \<Rightarrow> nat \<Rightarrow> nat \<Rightarrow> jsval" where
  "getValue sh r c =
     (if 1 \<le> r \<and> r \<le> length sh \<and> 1 \<le> c \<and> c \<le> length (sh ! (r - 1))
      then sh ! (r - 1) ! (c - 1) else blank)"

definition getValues :: "Sheet \<Rightarrow> region \<Rightarrow> jsval list list" where
  "getValues sh rg =
     (case rg of (r, c, nr, nc) \<Rightarrow>
        map (\<lambda>i. map (\<lambda>j. getValue sh (r + i) (c + j)) [0..<nc]) [0..<nr])"

definition last_content :: "jsval list \<Rightarrow> nat" where
  "last_content cells = length (rev (dropWhile (\<lambda>v. v = blank) (rev cells)))"

definition getLastRow :: "Sheet \<Rightarrow> nat" where
  "getLastRow sh = length (rev (dropWhile (\<lambda>cells. last_content cells = 0) (rev sh)))"

definition getLastColumn :: "Sheet \<Rightarrow> nat" where
  "getLastColumn sh = foldl max 0 (map last_content sh)"

definition pad :: "nat \<Rightarrow> 'a \<Rightarrow> 'a list \<Rightarrow> 'a list" where
  "pad n x xs = xs @ replicate (n - length xs) x"

definition setCell :: "Sheet \<Rightarrow> nat \<Rightarrow> nat \<Rightarrow> jsval \<Rightarrow> Sheet" where
  "setCell sh r c v =
     (if r = 0 \<or> c = 0 then sh
      else let sh' = pad r [] sh
           in sh'[r - 1 := (pad c blank (sh' ! (r - 1)))[c - 1 := v]])"

definition setRowValues :: "Sheet \<Rightarrow> nat \<Rightarrow> nat \<Rightarrow> jsval list \<Rightarrow> Sheet" where
  "setRowValues sh r c vs = foldl (\<lambda>s (j, v). setCell s r (c + j) v) sh (enumerate 0 vs)"

text \<open>Writing a grid of values with its top left corner at the corner of the region.\<close>

definition setValues :: "Sheet \<Rightarrow> region \<Rightarrow> jsval list list \<Rightarrow> Sheet" where
  "setValues sh rg vals =
     (case rg of (r, c, nr, nc) \<Rightarrow>
        foldl (\<lambda>s (i, vs). setRowValues s (r + i) c vs) sh (enumerate 0 vals))"

definition clearContent :: "Sheet \<Rightarrow> region \<Rightarrow> Sheet" where
  "clearContent sh rg =
     (case rg of (r, c, nr, nc) \<Rightarrow>
        map (\<lambda>(i, cells).
               if r \<le> i + 1 \<and> i + 1 < r + nr
               then map (\<lambda>(j, v). if c \<le> j + 1 \<and> j + 1 < c + nc then blank else v)
                        (enumerate 0 cells)
               else cells)
            (enumerate 0 sh))"

text \<open>Deleting a row moves every later row up by one.\<close>

definition deleteRow :: "Sheet \<Rightarrow> int \<Rightarrow> Sheet" where
  "deleteRow sh p =
     (if 1 \<le> p \<and> p \<le> int (length sh) then take (nat p - 1) sh @ drop (nat p) sh else sh)"

text \<open>The first row of a region that was read, \<^verbatim>\<open>getValues()[0]\<close>; no row gives no values.\<close>

definition first_row :: "jsval list list \<Rightarrow> jsval list" where
  "first_row vals = (case vals of [] \<Rightarrow> [] | cells # _ \<Rightarrow> cells)"

section \<open>RangeNotation and RangeManager\<close>

datatype RangeNotation = RangeNotation (rangeOf: region)

definition or_one :: "nat option \<Rightarrow> nat" where
  "or_one x = (case x of None \<Rightarrow> 1 | Some n \<Rightarrow> if n = 0 then 1 else n)"

definition new_RangeNotation ::
  "nat option \<Rightarrow> nat option \<Rightarrow> nat option \<Rightarrow> nat option \<Rightarrow> RangeNotation" where
  "new_RangeNotation row column numRows numColumns =
     RangeNotation (or_one row, or_one column, or_one numRows, or_one numColumns)"

definition row :: "RangeNotation \<Rightarrow> nat" where
  "row n = fst (rangeOf n)"

record Configs =
  headerRowNumber :: nat
  firstRowNumber :: nat
  firstColumnNumber :: nat
  lastColumnNumber :: nat
  offset :: nat

record RangeManager =
  sheet :: Sheet
  ranges :: "RangeNotation list"
  whereOptions :: "obj option"
  configs :: Configs

text \<open>
  The constructor looks the sheet up by its name in the active spreadsheet and throws when
  there is none, so a manager always has a sheet.
\<close>

definition new_RangeManager :: "(string \<times> Sheet) list \<Rightarrow> string \<Rightarrow> error + RangeManager" where
  "new_RangeManager spreadsheet name =
     (case map_of spreadsheet name of
        None \<Rightarrow> Inl (SheetNotFound name)
      | Some sh \<Rightarrow>
          Inr \<lparr> sheet = sh, ranges = [], whereOptions = None,
                configs = \<lparr> headerRowNumber = 1, firstRowNumber = 2, firstColumnNumber = 1,
                            lastColumnNumber = getLastColumn sh, offset = 1 \<rparr> \<rparr>)"

definition from_rm :: "(string \<times> Sheet) list \<Rightarrow> string \<Rightarrow> error + RangeManager" where
  "from_rm spreadsheet sheetName = new_RangeManager spreadsheet sheetName"


text \<open>
  The headers are read from the sheet each time they are used. The configuration is
  written by the constructor only, and with its values the region that is read is the
  first row. Each cell of that row is stored as it is read, whatever kind of value it is.
\<close>

definition headers :: "RangeManager \<Rightarrow> headers" where
  "headers m =
     (let table = first_row (getValues (sheet m)
                    (headerRowNumber (configs m), firstColumnNumber (configs m),
                     offset (configs m), lastColumnNumber (configs m)))
      in foldl (\<lambda>hs (index, item). hs @ [(index + 1, item)]) [] (enumerate 0 table))"

text \<open>
  A method of the manager returns the manager, or throws; what it threw, or what it
  returned, comes with the state in which it left the manager.
\<close>

type_synonym 'a result = "(error + 'a) \<times> RangeManager"

fun update_each :: "engine \<Rightarrow> obj \<Rightarrow> RangeNotation list \<Rightarrow> RangeManager \<Rightarrow> unit result" where
  "update_each h data [] m = (Inr (), m)"
| "update_each h data (n # ns) m =
     (let notation = rangeOf n;
          values = first_row (getValues (sheet m) notation)
      in case deserializeRow h (headers m) (plain data) values [] of
           Inl e \<Rightarrow> (Inl e, m)
         | Inr deserialized \<Rightarrow>
             (case serializeRow h (headers m) deserialized [] of
                Inl e \<Rightarrow> (Inl e, m)
              | Inr serialized \<Rightarrow>
                  update_each h data ns
                    (m\<lparr>sheet := setValues (sheet m) notation [serialized]\<rparr>)))"

definition update :: "engine \<Rightarrow> obj \<Rightarrow> RangeManager \<Rightarrow> unit result" where
  "update h data m =
     (if length (ranges m) > 0 then update_each h data (ranges m) m else (Inr (), m))"

definition deleteRows :: "RangeManager \<Rightarrow> unit result" where
  "deleteRows m =
     (if length (ranges m) > 0
      then (Inr (), m\<lparr>sheet := foldl (\<lambda>sh (index, row). deleteRow sh (int row - int index))
                                      (sheet m) (enumerate 0 (map row (ranges m)))\<rparr>)
      else (Inr (), m))"

definition append_rm :: "engine \<Rightarrow> obj \<Rightarrow> RangeManager \<Rightarrow> unit result" where
  "append_rm h data m =
     (let rg = (getLastRow (sheet m) + 1, 1, 1, getLastColumn (sheet m))
      in case serializeRow h (headers m) (plain data) [] of
           Inl e \<Rightarrow> (Inl e, m)
         | Inr values \<Rightarrow> (Inr (), m\<lparr>sheet := setValues (sheet m) rg [values]\<rparr>))"

definition prepend :: "engine \<Rightarrow> obj \<Rightarrow> RangeManager \<Rightarrow> unit result" where
  "prepend h data m =
     (let currentNumRows = getLastRow (sheet m);
          numColumns = getLastColumn (sheet m)
      in if numColumns \<noteq> 0 \<and> currentNumRows \<noteq> 0
         then (let currentData = getValues (sheet m) (2, 1, currentNumRows - 1, numColumns)
               in case serializeRow h (headers m) (plain data) [] of
                    Inl e \<Rightarrow> (Inl e, m)
                  | Inr newValues \<Rightarrow>
                      (let currentData' = newValues # currentData;
                           cleared = clearContent (sheet m)
                                       (firstRowNumber (configs m),
                                        firstColumnNumber (configs m), 1, numColumns)
                       in (Inr (), m\<lparr>sheet := setValues cleared
                                                  (firstRowNumber (configs m),
                                                   firstColumnNumber (configs m),
                                                   currentNumRows, numColumns)
                                                  currentData'\<rparr>)))
         else (Inr (), m))"

definition clear :: "RangeManager \<Rightarrow> unit result" where
  "clear m = (Inr (), m\<lparr>ranges := [], whereOptions := None\<rparr>)"

fun deserialize_all ::
  "engine \<Rightarrow> headers \<Rightarrow> string list \<Rightarrow> jsval list list \<Rightarrow> error + jsobject list" where
  "deserialize_all h hs colNames [] = Inr []"
| "deserialize_all h hs colNames (values # rest) =
     (case deserializeRow h hs (plain []) values colNames of
        Inl e \<Rightarrow> Inl e
      | Inr record \<Rightarrow>
          (case deserialize_all h hs colNames rest of
             Inl e \<Rightarrow> Inl e
           | Inr records \<Rightarrow> Inr (record # records)))"

definition fetch :: "engine \<Rightarrow> string list \<Rightarrow> RangeManager \<Rightarrow> (jsobject list) result" where
  "fetch h colNames m =
     (deserialize_all h (headers m) colNames
        (map (\<lambda>notation. first_row (getValues (sheet m) notation))
             (map rangeOf (ranges m))),
      m)"

section \<open>The filter operation\<close>

text \<open>
  The catalogue of comparison methods. An operand is what the caller writes in a
  where-clause: text, numbers, regular expressions, arrays and literal objects of them; it
  holds no function. A method applied to an operand of the wrong kind (a call of
  \<^verbatim>\<open>includes\<close>, \<^verbatim>\<open>some\<close> or \<^verbatim>\<open>exec\<close> on a value that has no such function, the spreading of a
  value that is not iterable) throws a \<^verbatim>\<open>TypeError\<close>. A regular expression is matched
  without the state that the flags \<^verbatim>\<open>g\<close> and \<^verbatim>\<open>y\<close> add.
\<close>

definition includes_call :: "engine \<Rightarrow> jsval \<Rightarrow> jsval \<Rightarrow> error + bool" where
  "includes_call h expected value =
     (case expected of
        JArr xs \<Rightarrow> Inr (list_ex (\<lambda>x. same_value_zero x value) xs)
      | JStr s \<Rightarrow>
          (case value of
             JRegExp r \<Rightarrow> Inl TypeError
           | _ \<Rightarrow> Inr (is_infix (to_string h value) s))
      | _ \<Rightarrow> Inl TypeError)"

definition exec_call :: "engine \<Rightarrow> jsval \<Rightarrow> jsval \<Rightarrow> error + bool" where
  "exec_call h expected value =
     (case expected of
        JRegExp r \<Rightarrow> Inr (RegExpExec h r (to_string h value))
      | _ \<Rightarrow> Inl TypeError)"

fun some_exec :: "engine \<Rightarrow> jsval \<Rightarrow> jsval list \<Rightarrow> error + bool" where
  "some_exec h value [] = Inr False"
| "some_exec h value (pattern # rest) =
     (case exec_call h pattern value of
        Inl e \<Rightarrow> Inl e
      | Inr found \<Rightarrow> if found then Inr True else some_exec h value rest)"

definition spread :: "jsval \<Rightarrow> jsval list option" where
  "spread v =
     (case v of
        JArr xs \<Rightarrow> Some xs
      | JStr s \<Rightarrow> Some (map (\<lambda>c. JStr [c]) s)
      | _ \<Rightarrow> None)"

definition methods :: "engine \<Rightarrow> (string \<times> (jsval \<Rightarrow> jsval \<Rightarrow> error + bool)) list" where
  "methods h =
     [(''equal'', \<lambda>value expected. Inr (loose_eq h value expected)),
      (''deepEqual'', \<lambda>value expected. Inr (strict_eq value expected)),
      (''gt'', \<lambda>value expected. Inr (js_gt h value expected)),
      (''gte'', \<lambda>value expected. Inr (js_gte h value expected)),
      (''lt'', \<lambda>value expected. Inr (js_lt h value expected)),
      (''lte'', \<lambda>value expected. Inr (js_lte h value expected)),
      (''includes'', \<lambda>value expected. includes_call h expected value),
      (''excludes'', \<lambda>value expected.
         (case includes_call h expected value of
            Inl e \<Rightarrow> Inl e
          | Inr found \<Rightarrow> Inr (found = False))),
      (''between'', \<lambda>value expected.
         (case spread expected of
            None \<Rightarrow> Inl TypeError
          | Some args \<Rightarrow>
              Inr (js_gte h value (JNum (Math_min h args))
                   \<and> js_lte h value (JNum (Math_max h args))))),
      (''match'', \<lambda>value expected. exec_call h expected value),
      (''matchAny'', \<lambda>value expected.
         (case expected of
            JArr exps \<Rightarrow> some_exec h value exps
          | _ \<Rightarrow> Inl TypeError))]"

text \<open>
  The catalogue is a plain object, so \<^verbatim>\<open>methods[name]\<close> with a name that is not in the
  catalogue finds the member of that name on \<^verbatim>\<open>Object.prototype\<close>, and the call
  \<^verbatim>\<open>methods[name](value, expected)\<close> runs it on the catalogue; \<^verbatim>\<open>every\<close> then takes the
  truthiness of what it returns. \<^verbatim>\<open>toString\<close> and \<^verbatim>\<open>toLocaleString\<close> return a text that
  is not empty, \<^verbatim>\<open>valueOf\<close> returns the catalogue and \<^verbatim>\<open>constructor\<close> returns an object;
  \<^verbatim>\<open>hasOwnProperty\<close> and \<^verbatim>\<open>propertyIsEnumerable\<close> tell whether the cell, as a property
  name, names a method of the catalogue; \<^verbatim>\<open>isPrototypeOf\<close> returns \<open>false\<close>;
  \<^verbatim>\<open>__lookupGetter__\<close> and \<^verbatim>\<open>__lookupSetter__\<close> return a function for the name of the only
  accessor, \<^verbatim>\<open>__proto__\<close>, and \<open>undefined\<close> for every other name. The call throws a
  \<^verbatim>\<open>TypeError\<close> for \<^verbatim>\<open>__defineGetter__\<close> and \<^verbatim>\<open>__defineSetter__\<close>, which reject an operand
  that is not a function, for \<^verbatim>\<open>__proto__\<close>, whose value is not a function, and for every
  other name, whose value is \<open>undefined\<close>.
\<close>

definition inherited_call :: "engine \<Rightarrow> string \<Rightarrow> jsval \<Rightarrow> jsval \<Rightarrow> error + bool" where
  "inherited_call h name value expected =
     (if name \<in> set [''toString'', ''toLocaleString'', ''valueOf'', ''constructor'']
      then Inr True
      else if name \<in> set [''hasOwnProperty'', ''propertyIsEnumerable'']
      then Inr (to_string h value \<in> set (map fst (methods h)))
      else if name = ''isPrototypeOf''
      then Inr False
      else if name \<in> set [''__lookupGetter__'', ''__lookupSetter__'']
      then Inr (to_string h value = ''__proto__'')
      else Inl TypeError)"

definition call_method :: "engine \<Rightarrow> string \<Rightarrow> jsval \<Rightarrow> jsval \<Rightarrow> error + bool" where
  "call_method h name value expected =
     (case map_of (methods h) name of
        None \<Rightarrow> inherited_call h name value expected
      | Some f \<Rightarrow> f value expected)"

text \<open>
  \<^verbatim>\<open>isLiteralObject\<close> reads the property \<^verbatim>\<open>constructor\<close> of a truthy value and compares
  it with the function \<^verbatim>\<open>Object\<close>, which is the member \<^verbatim>\<open>constructor\<close> of
  \<^verbatim>\<open>Object.prototype\<close>. A literal object inherits it unless it has an own property of
  that name; text, numbers, booleans, regular expressions, arrays and functions have
  another constructor.
\<close>

definition isLiteralObject :: "jsval \<Rightarrow> bool" where
  "isLiteralObject input =
     (truthy input \<and>
      (case input of
         JObj kvs \<Rightarrow> strict_eq (obj_get kvs ''constructor'') (JBuiltin ''constructor'')
       | JBuiltin n \<Rightarrow> n = ''Object.prototype''
       | _ \<Rightarrow> False))"

text \<open>
  The method list of one column: the entries of an operator map, or a single \<open>equal\<close>.
  The clause is read at one of its own keys.
\<close>

definition col_methods :: "obj \<Rightarrow> string \<Rightarrow> (string \<times> jsval) list" where
  "col_methods options colName =
     (if isLiteralObject (obj_get options colName)
      then (case obj_get options colName of
              JObj kvs \<Rightarrow> foldl (\<lambda>total item. total @ [(fst item, snd item)]) [] kvs
            | _ \<Rightarrow> [])
      else [(''equal'', obj_get options colName)])"

type_synonym column = "nat \<times> (string \<times> jsval) list"

fun build_cols :: "headers \<Rightarrow> obj \<Rightarrow> string list \<Rightarrow> error + column list" where
  "build_cols hs options [] = Inr []"
| "build_cols hs options (colName # rest) =
     (case find (\<lambda>(index, header). header = JStr colName) hs of
        None \<Rightarrow> Inl (NoHeaderFound colName)
      | Some entry \<Rightarrow>
          (case build_cols hs options rest of
             Inl e \<Rightarrow> Inl e
           | Inr cols \<Rightarrow> Inr ((fst entry, col_methods options colName) # cols)))"

text \<open>\<^verbatim>\<open>every\<close> stops at the first method that fails.\<close>

fun every_method :: "engine \<Rightarrow> jsval \<Rightarrow> (string \<times> jsval) list \<Rightarrow> error + bool" where
  "every_method h value [] = Inr True"
| "every_method h value (method # rest) =
     (case call_method h (fst method) value (snd method) of
        Inl e \<Rightarrow> Inl e
      | Inr ok \<Rightarrow> if ok then every_method h value rest else Inr False)"

fun filter_rows :: "engine \<Rightarrow> Sheet \<Rightarrow> column \<Rightarrow> nat list \<Rightarrow> error + nat list" where
  "filter_rows h sh column [] = Inr []"
| "filter_rows h sh column (r # rows) =
     (case every_method h (getValue sh r (fst column)) (snd column) of
        Inl e \<Rightarrow> Inl e
      | Inr keep \<Rightarrow>
          (case filter_rows h sh column rows of
             Inl e \<Rightarrow> Inl e
           | Inr kept \<Rightarrow> Inr (if keep then r # kept else kept)))"

fun reduce_cols :: "engine \<Rightarrow> Sheet \<Rightarrow> nat list \<Rightarrow> column list \<Rightarrow> error + nat list" where
  "reduce_cols h sh rows [] = Inr rows"
| "reduce_cols h sh rows (column # cols) =
     (case filter_rows h sh column rows of
        Inl e \<Rightarrow> Inl e
      | Inr rows' \<Rightarrow> reduce_cols h sh rows' cols)"

text \<open>
  The rows that the scan starts from,
  \<^verbatim>\<open>Array.from({ length: getLastRow() }, (_, index) => index + firstRowNumber)\<close>,
  and the descriptor made for a row that is kept,
  \<^verbatim>\<open>new RangeNotation({ row, numColumns: getLastColumn() })\<close>.
\<close>

definition scan_rows :: "RangeManager \<Rightarrow> nat list" where
  "scan_rows m = map (\<lambda>index. index + firstRowNumber (configs m)) [0..<getLastRow (sheet m)]"

definition row_notation :: "RangeManager \<Rightarrow> nat \<Rightarrow> RangeNotation" where
  "row_notation m r = new_RangeNotation (Some r) None None (Some (getLastColumn (sheet m)))"

definition where_rm :: "engine \<Rightarrow> obj \<Rightarrow> RangeManager \<Rightarrow> unit result" where
  "where_rm h options m =
     (let m1 = m\<lparr>whereOptions := Some options\<rparr>;
          colNames = map fst options;
          invalidCols = filter (\<lambda>colName. JStr colName \<notin> set (map snd (headers m1))) colNames
      in if length invalidCols > 0 then (Inl (InvalidCols invalidCols), m1)
         else
           (case build_cols (headers m1) options colNames of
              Inl e \<Rightarrow> (Inl e, m1)
            | Inr cols \<Rightarrow>
                (case reduce_cols h (sheet m1) (scan_rows m1) cols of
                   Inl e \<Rightarrow> (Inl e, m1)
                 | Inr rows \<Rightarrow> (Inr (), m1\<lparr>ranges := map (row_notation m1) rows\<rparr>))))"

definition refresh :: "engine \<Rightarrow> RangeManager \<Rightarrow> unit result" where
  "refresh h m =
     (case whereOptions m of
        None \<Rightarrow> (Inr (), m)
      | Some options \<Rightarrow> where_rm h options m)"

definition updateOrPrepend :: "engine \<Rightarrow> obj \<Rightarrow> RangeManager \<Rightarrow> unit result" where
  "updateOrPrepend h data m =
     (if length (ranges m) > 0 then update h data m else prepend h data m)"

definition updateOrAppend :: "engine \<Rightarrow> obj \<Rightarrow> RangeManager \<Rightarrow> unit result" where
  "updateOrAppend h data m =
     (if length (ranges m) > 0 then update h data m else append_rm h data m)"

section \<open>A table for the examples\<close>

text \<open>
  The table of the documented scenario: a header row and three data rows. The engine of
  the examples reads a string of decimal digits as a number (the empty string as zero),
  prints an integer in decimal digits and a literal object as \<^verbatim>\<open>[object Object]\<close>, matches
  a pattern as a literal substring, finds nothing on a regular expression, an array or a
  function that is a prototype, and accepts every assignment.
\<close>

definition people :: Sheet where
  "people =
     [[JStr ''name'', JStr ''age'', JStr ''id'', JStr ''is_active''],
      [JStr ''Alice'', JNum (Fin 28), JNum (Fin 1), JBool True],
      [JStr ''Bob'', JNum (Fin 35), JNum (Fin 2), JBool True],
      [JStr ''Charlie'', JNum (Fin 23), JNum (Fin 3), JBool False]]"

definition people_manager :: RangeManager where
  "people_manager =
     \<lparr> sheet = people, ranges = [], whereOptions = None,
       configs = \<lparr> headerRowNumber = 1, firstRowNumber = 2, firstColumnNumber = 1,
                   lastColumnNumber = 4, offset = 1 \<rparr> \<rparr>"

function show_nat :: "nat \<Rightarrow> string" where
  "show_nat n =
     (if n < 10 then [char_of (48 + n)]
      else show_nat (n div 10) @ [char_of (48 + n mod 10)])"
  by pat_completeness auto

termination show_nat
  by (relation "measure (\<lambda>n. n)") auto

declare show_nat.simps [simp del]

definition show_int :: "int \<Rightarrow> string" where
  "show_int a = (if a < 0 then CHR ''-'' # show_nat (nat (- a)) else show_nat (nat a))"

definition plain_engine :: engine where
  "plain_engine =
     \<lparr> StringToNumber =
         (\<lambda>s. if s = [] then Fin 0
              else if list_all is_digit s then Fin (of_int (digits_value s)) else NaN),
       ToString =
         (\<lambda>v. case v of
                JStr s \<Rightarrow> s
              | JNum (Fin q) \<Rightarrow>
                  (if snd (quotient_of q) = 1 then show_int (fst (quotient_of q)) else [])
              | JObj kvs \<Rightarrow> ''[object Object]''
              | _ \<Rightarrow> []),
       RegExpExec = (\<lambda>pattern s. is_infix pattern s),
       ForeignRead = (\<lambda>proto k. Some JUndefined),
       ForeignAssign = (\<lambda>proto k. True) \<rparr>"

text \<open>
  A second table, whose header row holds the number 2024 in its second cell, and its
  manager.
\<close>

definition yearly :: Sheet where
  "yearly =
     [[JStr ''name'', JNum (Fin 2024)],
      [JStr ''Ann'', JNum (Fin 5)]]"

definition yearly_manager :: RangeManager where
  "yearly_manager =
     \<lparr> sheet = yearly, ranges = [], whereOptions = None,
       configs = \<lparr> headerRowNumber = 1, firstRowNumber = 2, firstColumnNumber = 1,
                   lastColumnNumber = 2, offset = 1 \<rparr> \<rparr>"

section \<open>Notions used to state the properties\<close>

text \<open>The table without the rows at the given positions (1-based).\<close>

definition without_rows :: "Sheet \<Rightarrow> nat list \<Rightarrow> Sheet" where
  "without_rows sh positions =
     map snd (filter (\<lambda>(p, cells). p \<notin> set positions) (enumerate 1 sh))"

text \<open>The elements of a list in the order of their first occurrence, each one once.\<close>

definition first_occurrences :: "'a list \<Rightarrow> 'a list" where
  "first_occurrences xs = foldl (\<lambda>seen x. if x \<in> set seen then seen else seen @ [x]) [] xs"

text \<open>
  The property names of the headers, in header order. The fields that a call of
  \<^verbatim>\<open>deserializeRow\<close> selects: the position and the property name of every header when no
  name is requested, and of every header that is a requested name otherwise. The
  effective names of the call are the names of these fields.
\<close>

definition header_names :: "engine \<Rightarrow> headers \<Rightarrow> string list" where
  "header_names h hs = map (\<lambda>(index, header). to_string h header) hs"

definition selected_fields :: "engine \<Rightarrow> headers \<Rightarrow> string list \<Rightarrow> (nat \<times> string) list" where
  "selected_fields h hs requested =
     map (\<lambda>(index, header). (index, to_string h header))
       (filter (\<lambda>(index, header).
                  header \<in> set (if requested = [] then map snd hs else map JStr requested))
          hs)"

definition effective_names :: "engine \<Rightarrow> headers \<Rightarrow> string list \<Rightarrow> string list" where
  "effective_names h hs requested = map snd (selected_fields h hs requested)"

section \<open>Properties of the operations\<close>

subsection \<open>Objects\<close>

lemma keys_obj_insert: "fst ` set (obj_insert k v ob) = insert k (fst ` set ob)"
  by (induction k v ob rule: obj_insert.induct) (simp_all add: insert_commute)

lemma replace_keys:
  "map fst (map (\<lambda>(k', v'). if k' = k then (k', v) else (k', v')) ob) = map fst ob"
  by (induction ob) auto

lemma keys_obj_set_list:
  "map fst (obj_set k v ob)
     = (if k \<in> fst ` set ob then map fst ob else map fst (obj_insert k v ob))"
proof (cases "k \<in> fst ` set ob")
  case True
  then have "obj_set k v ob = map (\<lambda>(k', v'). if k' = k then (k', v) else (k', v')) ob"
    by (simp add: obj_set_def)
  then have "map fst (obj_set k v ob) = map fst ob"
    by (simp only: replace_keys)
  with True show ?thesis by simp
next
  case False
  then show ?thesis
    by (simp add: obj_set_def)
qed

lemma keys_obj_set: "fst ` set (obj_set k v ob) = insert k (fst ` set ob)"
proof -
  have "set (map fst (obj_set k v ob)) = insert k (fst ` set ob)"
    unfolding keys_obj_set_list using keys_obj_insert [of k v ob] by auto
  then show ?thesis by simp
qed

lemma distinct_obj_insert:
  "k \<notin> fst ` set ob \<Longrightarrow> distinct (map fst ob) \<Longrightarrow> distinct (map fst (obj_insert k v ob))"
proof (induction ob)
  case Nil
  then show ?case by simp
next
  case (Cons p ob)
  obtain k' v' where p: "p = (k', v')" by (cases p)
  have "k' \<notin> fst ` set (obj_insert k v ob)"
    using Cons.prems p unfolding keys_obj_insert by auto
  with Cons p show ?case by auto
qed

lemma distinct_obj_set:
  "distinct (map fst ob) \<Longrightarrow> distinct (map fst (obj_set k v ob))"
  unfolding keys_obj_set_list by (simp add: distinct_obj_insert)

lemma map_of_obj_insert:
  "k \<notin> fst ` set ob \<Longrightarrow> map_of (obj_insert k v ob) x = (if x = k then Some v else map_of ob x)"
  by (induction k v ob rule: obj_insert.induct) auto

lemma map_of_replace:
  "map_of (map (\<lambda>(k', v'). if k' = k then (k', v) else (k', v')) ob) x
     = (if x = k \<and> k \<in> fst ` set ob then Some v else map_of ob x)"
proof (induction ob)
  case Nil
  then show ?case by simp
next
  case (Cons p ob)
  obtain a b where p: "p = (a, b)" by (cases p)
  show ?case
    by (cases "a = k"; cases "x = a") (simp_all add: p Cons.IH)
qed

lemma map_of_obj_set: "map_of (obj_set k v ob) x = (if x = k then Some v else map_of ob x)"
proof (cases "k \<in> fst ` set ob")
  case True
  then have "obj_set k v ob = map (\<lambda>(k', v'). if k' = k then (k', v) else (k', v')) ob"
    by (simp add: obj_set_def)
  then have "map_of (obj_set k v ob) x = (if x = k \<and> k \<in> fst ` set ob then Some v else map_of ob x)"
    by (simp only: map_of_replace)
  with True show ?thesis by simp
next
  case False
  then have "obj_set k v ob = obj_insert k v ob"
    by (simp add: obj_set_def)
  with False show ?thesis
    by (simp add: map_of_obj_insert)
qed

lemma obj_insert_plain: "\<not> is_array_index k \<Longrightarrow> obj_insert k v ob = ob @ [(k, v)]"
  by (induction k v ob rule: obj_insert.induct) auto

lemma keys_obj_set_plain:
  "\<not> is_array_index k \<Longrightarrow>
   map fst (obj_set k v ob) = (if k \<in> fst ` set ob then map fst ob else map fst ob @ [k])"
  unfolding keys_obj_set_list by (simp add: obj_insert_plain)

text \<open>Reading and assigning on an object whose prototype is \<^verbatim>\<open>Object.prototype\<close>.\<close>

lemma obj_get_own: "map_of ob k = Some v \<Longrightarrow> obj_get ob k = v"
  by (simp add: obj_get_def)

lemma obj_get_proto: "map_of ob ''__proto__'' = None \<Longrightarrow> obj_get ob ''__proto__'' = the_prototype"
  by (simp add: obj_get_def inherited_def)

lemma obj_get_undefined_not_proto:
  "map_of ob ''__proto__'' = None \<Longrightarrow> obj_get ob k = JUndefined \<Longrightarrow> k \<noteq> ''__proto__''"
  by (auto simp: obj_get_def inherited_def the_prototype_def)

lemma get_property_std: "get_property h (ob, the_prototype) k = Inr (obj_get ob k)"
  by (simp add: get_property_def obj_get_def the_prototype_def foreign_def split: option.splits)

lemma get_property_plain: "get_property h (plain ob) k = Inr (obj_get ob k)"
  by (simp add: plain_def get_property_std)

lemma get_property_error: "get_property h ob k = Inl e \<Longrightarrow> e = TypeError"
  by (auto simp: get_property_def split: option.splits jsval.splits if_splits)

lemma set_property_std:
  "k \<noteq> ''__proto__'' \<Longrightarrow>
   set_property h k v (ob, the_prototype) = Inr (obj_set k v ob, the_prototype)"
  by (simp add: set_property_def the_prototype_def foreign_def)

lemma set_property_proto_std:
  "map_of ob ''__proto__'' = None \<Longrightarrow>
   set_property h ''__proto__'' the_prototype (ob, the_prototype) = Inr (ob, the_prototype)"
  by (simp add: set_property_def the_prototype_def proto_setter_reached_def)

lemma set_property_error: "set_property h k v ob = Inl e \<Longrightarrow> e = TypeError"
  by (auto simp: set_property_def split: if_splits)

subsection \<open>Loops with a callback that can throw\<close>

lemma map_result_cong:
  "(\<And>x. x \<in> set xs \<Longrightarrow> f x = g x) \<Longrightarrow> map_result f xs = map_result g xs"
  by (induction xs) (simp_all split: sum.splits)

lemma map_result_Inr: "map_result (\<lambda>x. Inr (g x)) xs = Inr (map g xs)"
  by (induction xs) simp_all

lemma map_result_error:
  "map_result f xs = Inl e \<Longrightarrow> \<exists>x \<in> set xs. f x = Inl e"
  by (induction xs) (auto split: sum.splits)

lemma reduce_result_cong:
  "(\<And>x acc. x \<in> set xs \<Longrightarrow> f acc x = g acc x) \<Longrightarrow>
   reduce_result f acc xs = reduce_result g acc xs"
  by (induction xs arbitrary: acc) (simp_all split: sum.splits)

lemma reduce_result_error:
  "reduce_result f acc xs = Inl e \<Longrightarrow> \<exists>x \<in> set xs. \<exists>acc'. f acc' x = Inl e"
  by (induction xs arbitrary: acc) (auto split: sum.splits)

lemma map_result_length: "map_result f xs = Inr ys \<Longrightarrow> length ys = length xs"
  by (induction xs arbitrary: ys) (auto split: sum.splits)

subsection \<open>The codec on plain objects\<close>

lemma serializeRow_std:
  "serializeRow h hs (ob, the_prototype) cur
     = Inr (map (\<lambda>(index, header).
                   js_or (js_or (obj_get ob (to_string h header)) (arr_get cur (int index - 1)))
                         (JStr ''''))
                hs)"
proof -
  have "serializeRow h hs (ob, the_prototype) cur
        = map_result (\<lambda>x. Inr ((\<lambda>(index, header).
                   js_or (js_or (obj_get ob (to_string h header)) (arr_get cur (int index - 1)))
                         (JStr '''')) x)) hs"
    unfolding serializeRow_def
    by (rule map_result_cong) (simp add: get_property_std split: prod.splits)
  then show ?thesis
    by (simp only: map_result_Inr)
qed

lemma serializeRow_plain:
  "serializeRow h hs (plain ob) cur
     = Inr (map (\<lambda>(index, header).
                   js_or (js_or (obj_get ob (to_string h header)) (arr_get cur (int index - 1)))
                         (JStr ''''))
                hs)"
  by (simp add: plain_def serializeRow_std)

lemma serializeRow_error: "serializeRow h hs data cur = Inl e \<Longrightarrow> e = TypeError"
proof -
  assume "serializeRow h hs data cur = Inl e"
  then obtain x where
    "(case x of (index, header) \<Rightarrow>
        case get_property h data (to_string h header) of
          Inl e \<Rightarrow> Inl e
        | Inr v \<Rightarrow> Inr (js_or (js_or v (arr_get cur (int index - 1))) (JStr ''''))) = Inl e"
    unfolding serializeRow_def by (blast dest: map_result_error)
  then show ?thesis
    by (auto split: prod.splits sum.splits dest: get_property_error)
qed

lemma length_serializeRow: "serializeRow h hs data cur = Inr cells \<Longrightarrow> length cells = length hs"
  unfolding serializeRow_def by (rule map_result_length)

lemma deserialize_loop:
  assumes "map_of d ''__proto__'' = None" and "map_of acc ''__proto__'' = None"
  shows "reduce_result
           (\<lambda>total (index, colName).
              if colName \<in> S
              then (case get_property h (plain d) (to_string h colName) of
                      Inl e \<Rightarrow> Inl e
                    | Inr v \<Rightarrow>
                        set_property h (to_string h colName)
                          (js_or v (arr_get cur (int index - 1))) total)
              else Inr total)
           (acc, the_prototype) hs
         = Inr (foldl (\<lambda>total (index, name).
                         obj_set name (js_or (obj_get d name) (arr_get cur (int index - 1))) total)
                  acc
                  (filter (\<lambda>(index, name). name \<noteq> ''__proto__'')
                     (map (\<lambda>(index, header). (index, to_string h header))
                        (filter (\<lambda>(index, header). header \<in> S) hs))),
                the_prototype)"
  using assms(2)
proof (induction hs arbitrary: acc)
  case Nil
  show ?case by simp
next
  case (Cons p hs)
  obtain i c where p: "p = (i, c)" by (cases p)
  show ?case
  proof (cases "c \<in> S")
    case False
    then show ?thesis
      by (simp add: p Cons.IH [OF Cons.prems])
  next
    case True
    show ?thesis
    proof (cases "to_string h c = ''__proto__''")
      case True
      have "js_or (obj_get d ''__proto__'') (arr_get cur (int i - 1)) = the_prototype"
        by (simp add: obj_get_proto [OF assms(1)] js_or_def the_prototype_def)
      then show ?thesis
        using \<open>c \<in> S\<close> True
        by (simp add: p get_property_plain set_property_proto_std [OF Cons.prems]
              Cons.IH [OF Cons.prems])
    next
      case False
      have "map_of (obj_set (to_string h c)
                      (js_or (obj_get d (to_string h c)) (arr_get cur (int i - 1))) acc)
              ''__proto__'' = None"
        using False Cons.prems by (simp add: map_of_obj_set)
      then show ?thesis
        using \<open>c \<in> S\<close> False
        by (simp add: p get_property_plain set_property_std Cons.IH)
    qed
  qed
qed

lemma deserializeRow_plain:
  assumes "\<forall>name \<in> set requested. JStr name \<in> snd ` set hs"
    and "map_of d ''__proto__'' = None"
  shows "deserializeRow h hs (plain d) cur requested
           = Inr (foldl (\<lambda>total (index, name).
                           obj_set name (js_or (obj_get d name) (arr_get cur (int index - 1)))
                             total)
                    []
                    (filter (\<lambda>(index, name). name \<noteq> ''__proto__'')
                       (selected_fields h hs requested)),
                  the_prototype)"
proof -
  have valid: "filter (\<lambda>colName. JStr colName \<notin> set (map snd hs)) requested = []"
    using assms(1) by (auto simp: filter_empty_conv)
  have empty: "map_of ([] :: obj) ''__proto__'' = None"
    by simp
  show ?thesis
    unfolding deserializeRow_def Let_def valid selected_fields_def
    using deserialize_loop [OF assms(2) empty, of "set (if requested = [] then map snd hs
                                                         else map JStr requested)" h cur hs]
    by (simp add: plain_def)
qed

lemma deserializeRow_cong:
  assumes "\<forall>header \<in> snd ` set hs.
             obj_get d' (to_string h header) = obj_get d (to_string h header)"
  shows "deserializeRow h hs (plain d') cur names = deserializeRow h hs (plain d) cur names"
proof -
  have "reduce_result
           (\<lambda>total (index, colName).
              if colName \<in> S
              then (case get_property h (plain d') (to_string h colName) of
                      Inl e \<Rightarrow> Inl e
                    | Inr v \<Rightarrow>
                        set_property h (to_string h colName)
                          (js_or v (arr_get cur (int index - 1))) total)
              else Inr total)
           acc hs
        = reduce_result
           (\<lambda>total (index, colName).
              if colName \<in> S
              then (case get_property h (plain d) (to_string h colName) of
                      Inl e \<Rightarrow> Inl e
                    | Inr v \<Rightarrow>
                        set_property h (to_string h colName)
                          (js_or v (arr_get cur (int index - 1))) total)
              else Inr total)
           acc hs" for S acc
    using assms by (intro reduce_result_cong) (force simp: get_property_plain)
  then show ?thesis
    by (simp add: deserializeRow_def Let_def)
qed

lemma deserializeRow_error:
  assumes "deserializeRow h hs data cur [] = Inl e"
  shows "e = TypeError"
proof -
  have "reduce_result
           (\<lambda>total (index, colName).
              if colName \<in> set (map snd hs)
              then (case get_property h data (to_string h colName) of
                      Inl e \<Rightarrow> Inl e
                    | Inr v \<Rightarrow>
                        set_property h (to_string h colName)
                          (js_or v (arr_get cur (int index - 1))) total)
              else Inr total)
           (plain []) hs = Inl e"
    using assms by (simp add: deserializeRow_def)
  then obtain x acc' where
    "(case x of (index, colName) \<Rightarrow>
        if colName \<in> set (map snd hs)
        then (case get_property h data (to_string h colName) of
                Inl e \<Rightarrow> Inl e
              | Inr v \<Rightarrow>
                  set_property h (to_string h colName)
                    (js_or v (arr_get cur (int index - 1))) acc')
        else Inr acc') = Inl e"
    by (blast dest: reduce_result_error)
  then show ?thesis
    by (auto split: prod.splits sum.splits if_splits
          dest: get_property_error set_property_error)
qed

subsection \<open>The fields collected by deserializeRow\<close>

lemma collect_keys:
  "fst ` set (foldl (\<lambda>total (index, name). obj_set name (f index name) total) acc fs)
     = fst ` set acc \<union> snd ` set fs"
proof (induction fs arbitrary: acc)
  case Nil
  then show ?case by simp
next
  case (Cons p fs)
  obtain i n where p: "p = (i, n)" by (cases p)
  show ?case
    unfolding p by (auto simp: Cons.IH keys_obj_set)
qed

lemma collect_distinct:
  "distinct (map fst acc) \<Longrightarrow>
   distinct (map fst (foldl (\<lambda>total (index, name). obj_set name (f index name) total) acc fs))"
proof (induction fs arbitrary: acc)
  case Nil
  then show ?case by simp
next
  case (Cons p fs)
  obtain i n where p: "p = (i, n)" by (cases p)
  show ?case
    using Cons.prems unfolding p by (simp add: Cons.IH distinct_obj_set)
qed

lemma collect_keys_plain:
  "\<forall>name \<in> snd ` set fs. \<not> is_array_index name \<Longrightarrow>
   map fst (foldl (\<lambda>total (index, name). obj_set name (f index name) total) acc fs)
     = foldl (\<lambda>seen x. if x \<in> set seen then seen else seen @ [x]) (map fst acc) (map snd fs)"
proof (induction fs arbitrary: acc)
  case Nil
  then show ?case by simp
next
  case (Cons p fs)
  obtain i n where p: "p = (i, n)" by (cases p)
  have rest: "\<forall>name \<in> snd ` set fs. \<not> is_array_index name"
    using Cons.prems by simp
  have "\<not> is_array_index n"
    using Cons.prems p by simp
  then show ?case
    unfolding p by (simp add: Cons.IH [OF rest] keys_obj_set_plain)
qed

lemma collect_lookup:
  "\<forall>i. (i, k) \<in> set fs \<longrightarrow> f i k = x \<Longrightarrow>
   map_of (foldl (\<lambda>total (index, name). obj_set name (f index name) total) acc fs) k
     = (if k \<in> snd ` set fs then Some x else map_of acc k)"
proof (induction fs arbitrary: acc)
  case Nil
  then show ?case by simp
next
  case (Cons p fs)
  obtain i n where p: "p = (i, n)" by (cases p)
  have rest: "\<forall>i. (i, k) \<in> set fs \<longrightarrow> f i k = x"
    using Cons.prems by simp
  have here: "n = k \<Longrightarrow> f i n = x"
    using Cons.prems p by simp
  show ?case
    unfolding p using here
    by (auto simp: Cons.IH [OF rest] map_of_obj_set)
qed

subsection \<open>The selected fields\<close>

lemma selected_fields_all:
  "selected_fields h hs [] = map (\<lambda>(index, header). (index, to_string h header)) hs"
proof -
  have "filter (\<lambda>(index, header). header \<in> set (map snd hs)) hs = hs"
    by (rule filter_True) force
  then show ?thesis
    by (simp add: selected_fields_def)
qed

lemma effective_names_all: "effective_names h hs [] = header_names h hs"
  by (simp add: effective_names_def selected_fields_all header_names_def split_def)

lemma effective_names_requested:
  assumes "requested \<noteq> []" and "\<forall>name \<in> set requested. JStr name \<in> snd ` set hs"
  shows "set (effective_names h hs requested) = set requested"
proof
  show "set (effective_names h hs requested) \<subseteq> set requested"
    using assms(1)
    by (auto simp: effective_names_def selected_fields_def to_string_def)
  show "set requested \<subseteq> set (effective_names h hs requested)"
  proof
    fix name
    assume "name \<in> set requested"
    with assms(2) obtain i where "(i, JStr name) \<in> set hs"
      by force
    then have "(i, name) \<in> set (selected_fields h hs requested)"
      using assms(1) \<open>name \<in> set requested\<close>
      by (force simp: selected_fields_def to_string_def)
    then show "name \<in> set (effective_names h hs requested)"
      by (force simp: effective_names_def)
  qed
qed

lemma arr_get_positions:
  assumes "map fst hs = [1..<Suc (length hs)]" and "(i, k) \<in> set hs"
  shows "arr_get (map (\<lambda>(index, header). g header) hs) (int i - 1) = g k"
proof -
  obtain j where j: "j < length hs" "hs ! j = (i, k)"
    using assms(2) by (auto simp: in_set_conv_nth)
  have "map fst hs ! j = Suc j"
    using j(1) by (simp add: assms(1) del: upt_Suc)
  then have "i = Suc j"
    using j by simp
  then show ?thesis
    using j by (simp add: arr_get_def)
qed

subsection \<open>Reading the sheet after a write\<close>

lemma nth_pad:
  "i < length (pad n x xs) \<Longrightarrow> pad n x xs ! i = (if i < length xs then xs ! i else x)"
  by (auto simp: pad_def nth_append)

lemma getValue_setCell:
  "getValue (setCell sh r c v) r' c' =
     (if r' = r \<and> c' = c \<and> 1 \<le> r \<and> 1 \<le> c then v else getValue sh r' c')"
proof (cases "r = 0 \<or> c = 0")
  case True
  then show ?thesis
    by (auto simp: setCell_def)
next
  case False
  then have pos: "1 \<le> r" "1 \<le> c" by auto
  define sh' where "sh' = pad r [] sh"
  define cells where "cells = pad c blank (sh' ! (r - 1))"
  have len: "r \<le> length sh'"
    by (simp add: sh'_def pad_def)
  have clen: "c \<le> length cells"
    by (simp add: cells_def pad_def)
  have set_eq: "setCell sh r c v = sh'[r - 1 := cells[c - 1 := v]]"
    using False by (simp add: setCell_def sh'_def cells_def Let_def)
  have old: "getValue sh' r' c' = getValue sh r' c'" for r' c'
    by (auto simp: getValue_def sh'_def pad_def nth_append blank_def)
  have oldc: "(if 1 \<le> c' \<and> c' \<le> length cells then cells ! (c' - 1) else blank)
              = getValue sh' r c'" for c'
  proof (cases "1 \<le> c' \<and> c' \<le> length cells")
    case True
    then have "cells ! (c' - 1) =
                 (if c' - 1 < length (sh' ! (r - 1)) then sh' ! (r - 1) ! (c' - 1) else blank)"
      unfolding cells_def by (intro nth_pad) auto
    with True len pos show ?thesis
      by (auto simp: getValue_def)
  next
    case False
    then have "\<not> (1 \<le> c' \<and> c' \<le> length (sh' ! (r - 1)))"
      by (auto simp: cells_def pad_def)
    with False show ?thesis
      by (auto simp: getValue_def)
  qed
  show ?thesis
  proof (cases "r' = r")
    case True
    have "getValue (setCell sh r c v) r c' = (if c' = c then v else getValue sh' r c')"
      using len clen pos oldc [of c']
      by (auto simp: set_eq getValue_def nth_list_update)
    then show ?thesis
      using True pos old by simp
  next
    case False
    have "getValue (setCell sh r c v) r' c' = getValue sh' r' c'"
      using False len pos
      by (auto simp: set_eq getValue_def nth_list_update)
    then show ?thesis
      using False old by simp
  qed
qed

lemma enumerate_snoc: "enumerate n (xs @ [x]) = enumerate n xs @ [(n + length xs, x)]"
  by (simp add: enumerate_append_eq)

lemma getValue_setRowValues_other:
  "r' \<noteq> r \<Longrightarrow> getValue (setRowValues sh r c vs) r' c' = getValue sh r' c'"
  by (induction vs rule: rev_induct)
     (simp_all add: setRowValues_def enumerate_snoc getValue_setCell)

lemma getValue_setRowValues_same:
  "1 \<le> r \<Longrightarrow> 1 \<le> c \<Longrightarrow>
   getValue (setRowValues sh r c vs) r c' =
     (if c \<le> c' \<and> c' < c + length vs then vs ! (c' - c) else getValue sh r c')"
proof (induction vs rule: rev_induct)
  case Nil
  then show ?case by (auto simp: setRowValues_def)
next
  case (snoc v vs)
  have step: "setRowValues sh r c (vs @ [v]) = setCell (setRowValues sh r c vs) r (c + length vs) v"
    by (simp add: setRowValues_def enumerate_snoc)
  show ?case
    using snoc by (auto simp: step getValue_setCell nth_append)
qed

lemma setValues_one_row: "setValues sh (r, c, nr, nc) [vs] = setRowValues sh r c vs"
  by (simp add: setValues_def)

lemma getValue_setValues_other:
  "r' \<noteq> fst rg \<Longrightarrow> getValue (setValues sh rg [vs]) r' c' = getValue sh r' c'"
  by (cases rg) (simp add: setValues_one_row getValue_setRowValues_other)

subsection \<open>The last populated row\<close>

lemma trailing_holds:
  "length (rev (dropWhile P (rev xs))) \<le> i \<Longrightarrow> i < length xs \<Longrightarrow> P (xs ! i)"
proof (induction xs rule: rev_induct)
  case Nil
  then show ?case by simp
next
  case (snoc x xs)
  show ?case
  proof (cases "P x")
    case True
    with snoc show ?thesis
      by (cases "i = length xs") (auto simp: nth_append)
  next
    case False
    with snoc.prems show ?thesis by simp
  qed
qed

lemma trailing_bound:
  "(\<forall>i. n \<le> i \<and> i < length xs \<longrightarrow> P (xs ! i)) \<Longrightarrow> length (rev (dropWhile P (rev xs))) \<le> n"
proof (induction xs rule: rev_induct)
  case Nil
  then show ?case by simp
next
  case (snoc x xs)
  show ?case
  proof (cases "n \<le> length xs")
    case True
    with snoc.prems have px: "P x"
      by (auto dest: spec [of _ "length xs"])
    have "\<forall>i. n \<le> i \<and> i < length xs \<longrightarrow> P (xs ! i)"
    proof (intro allI impI)
      fix i assume "n \<le> i \<and> i < length xs"
      with snoc.prems have "P ((xs @ [x]) ! i)" by auto
      with \<open>n \<le> i \<and> i < length xs\<close> show "P (xs ! i)" by (simp add: nth_append)
    qed
    with snoc.IH px show ?thesis by simp
  next
    case False
    have "length (dropWhile P (rev (xs @ [x]))) \<le> length (rev (xs @ [x]))"
      by (rule length_dropWhile_le)
    with False show ?thesis by simp
  qed
qed

lemma last_content_zero: "last_content cells = 0 \<longleftrightarrow> (\<forall>j < length cells. cells ! j = blank)"
proof
  assume "last_content cells = 0"
  then show "\<forall>j < length cells. cells ! j = blank"
    using trailing_holds [of "\<lambda>v. v = blank" cells] by (simp add: last_content_def)
next
  assume "\<forall>j < length cells. cells ! j = blank"
  then have "length (rev (dropWhile (\<lambda>v. v = blank) (rev cells))) \<le> 0"
    by (intro trailing_bound) simp
  then show "last_content cells = 0"
    by (simp add: last_content_def)
qed

lemma getValue_after_last: "getLastRow sh < r \<Longrightarrow> getValue sh r c = blank"
proof (cases "1 \<le> r \<and> r \<le> length sh \<and> 1 \<le> c \<and> c \<le> length (sh ! (r - 1))")
  case False
  then show ?thesis by (auto simp: getValue_def)
next
  case True
  assume "getLastRow sh < r"
  then have a: "length (rev (dropWhile (\<lambda>cells. last_content cells = 0) (rev sh))) \<le> r - 1"
    by (simp add: getLastRow_def)
  have b: "r - 1 < length sh"
    using True by auto
  have "last_content (sh ! (r - 1)) = 0"
    using trailing_holds [OF a b] .
  then have "sh ! (r - 1) ! (c - 1) = blank"
    using True by (auto simp: last_content_zero)
  with True show ?thesis
    by (simp add: getValue_def)
qed

lemma getLastRow_bound:
  assumes "\<forall>r c. n < r \<longrightarrow> getValue sh r c = blank"
  shows "getLastRow sh \<le> n"
proof -
  have "\<forall>i. n \<le> i \<and> i < length sh \<longrightarrow> last_content (sh ! i) = 0"
  proof (intro allI impI)
    fix i assume i: "n \<le> i \<and> i < length sh"
    have "\<forall>j < length (sh ! i). sh ! i ! j = blank"
    proof (intro allI impI)
      fix j assume "j < length (sh ! i)"
      with i assms [rule_format, of "Suc i" "Suc j"] show "sh ! i ! j = blank"
        by (simp add: getValue_def)
    qed
    then show "last_content (sh ! i) = 0"
      by (simp add: last_content_zero)
  qed
  then show ?thesis
    unfolding getLastRow_def by (rule trailing_bound)
qed

subsection \<open>Deleting the selected rows\<close>

lemma filter_enumerate_shift:
  "map snd (filter (\<lambda>(p, cells). Q (Suc p)) (enumerate n xs))
     = map snd (filter (\<lambda>(p, cells). Q p) (enumerate (Suc n) xs))"
  by (induction xs arbitrary: n) simp_all

lemma filter_enumerate_all:
  "\<forall>p. n \<le> p \<and> p < n + length xs \<longrightarrow> Q p \<Longrightarrow>
   map snd (filter (\<lambda>(p, cells). Q p) (enumerate n xs)) = xs"
proof (induction xs arbitrary: n)
  case Nil
  then show ?case by simp
next
  case (Cons x xs)
  have "\<forall>p. Suc n \<le> p \<and> p < Suc n + length xs \<longrightarrow> Q p"
    using Cons.prems by auto
  then have "map snd (filter (\<lambda>(p, cells). Q p) (enumerate (Suc n) xs)) = xs"
    by (rule Cons.IH)
  moreover have "Q n"
    using Cons.prems by auto
  ultimately show ?case by simp
qed

lemma delete_fold:
  "sorted_wrt (<) rs \<Longrightarrow> \<forall>r \<in> set rs. k < r \<Longrightarrow>
   foldl (\<lambda>sh (index, row). deleteRow sh (int row - int index)) sh (enumerate k rs)
     = map snd (filter (\<lambda>(p, cells). p + k \<notin> set rs) (enumerate 1 sh))"
proof (induction rs arbitrary: k sh)
  case Nil
  then show ?case
    by (simp add: filter_enumerate_all)
next
  case (Cons r rest)
  define p where "p = r - k"
  have kr: "k < r" and rest_gt: "\<forall>x \<in> set rest. r < x"
    using Cons.prems by auto
  have p1: "1 \<le> p" and pk: "p + k = r"
    using kr by (auto simp: p_def)
  define sh' where "sh' = deleteRow sh (int r - int k)"
  have target: "int r - int k = int p"
    using kr by (simp add: p_def)
  have "sorted_wrt (<) rest" and "\<forall>x \<in> set rest. Suc k < x"
    using Cons.prems by auto
  then have IH: "foldl (\<lambda>sh (index, row). deleteRow sh (int row - int index)) sh'
                   (enumerate (Suc k) rest)
                 = map snd (filter (\<lambda>(q, cells). q + Suc k \<notin> set rest) (enumerate 1 sh'))"
    by (rule Cons.IH)
  have goal: "map snd (filter (\<lambda>(q, cells). q + Suc k \<notin> set rest) (enumerate 1 sh'))
              = map snd (filter (\<lambda>(q, cells). q + k \<notin> set (r # rest)) (enumerate 1 sh))"
  proof (cases "p \<le> length sh")
    case True
    have sh'_eq: "sh' = take (p - 1) sh @ drop p sh"
      using True p1 by (simp add: sh'_def target deleteRow_def)
    have split: "sh = take (p - 1) sh @ sh ! (p - 1) # drop p sh"
      using True p1 id_take_nth_drop [of "p - 1" sh] by simp
    have len: "length (take (p - 1) sh) = p - 1"
      using True by simp
    have front_new: "map snd (filter (\<lambda>(q, cells). q + Suc k \<notin> set rest)
                       (enumerate 1 (take (p - 1) sh))) = take (p - 1) sh"
      using rest_gt pk len by (intro filter_enumerate_all) auto
    have front_old: "map snd (filter (\<lambda>(q, cells). q + k \<notin> set (r # rest))
                       (enumerate 1 (take (p - 1) sh))) = take (p - 1) sh"
      using rest_gt pk len by (intro filter_enumerate_all) auto
    have rear: "map snd (filter (\<lambda>(q, cells). q + Suc k \<notin> set rest) (enumerate p (drop p sh)))
                = map snd (filter (\<lambda>(q, cells). q + k \<notin> set (r # rest))
                     (enumerate (Suc p) (drop p sh)))"
    proof -
      have "map snd (filter (\<lambda>(q, cells). q + k \<notin> set (r # rest)) (enumerate (Suc p) (drop p sh)))
            = map snd (filter (\<lambda>(q, cells). q + k \<notin> set rest) (enumerate (Suc p) (drop p sh)))"
      proof -
        have "filter (\<lambda>(q, cells). q + k \<notin> set (r # rest)) (enumerate (Suc p) (drop p sh))
              = filter (\<lambda>(q, cells). q + k \<notin> set rest) (enumerate (Suc p) (drop p sh))"
          using pk by (intro filter_cong) (auto simp: in_set_enumerate_eq)
        then show ?thesis by simp
      qed
      moreover have "map snd (filter (\<lambda>(q, cells). Suc q + k \<notin> set rest) (enumerate p (drop p sh)))
            = map snd (filter (\<lambda>(q, cells). q + k \<notin> set rest) (enumerate (Suc p) (drop p sh)))"
        by (rule filter_enumerate_shift [of "\<lambda>q. q + k \<notin> set rest"])
      ultimately show ?thesis by simp
    qed
    have new: "map snd (filter (\<lambda>(q, cells). q + Suc k \<notin> set rest) (enumerate 1 sh'))
               = take (p - 1) sh
                 @ map snd (filter (\<lambda>(q, cells). q + Suc k \<notin> set rest) (enumerate p (drop p sh)))"
      using front_new len p1 by (simp add: sh'_eq enumerate_append_eq)
    have "enumerate 1 sh = enumerate 1 (take (p - 1) sh) @ (p, sh ! (p - 1))
                             # enumerate (Suc p) (drop p sh)"
      using len p1 by (subst split) (simp add: enumerate_append_eq)
    then have old: "map snd (filter (\<lambda>(q, cells). q + k \<notin> set (r # rest)) (enumerate 1 sh))
               = take (p - 1) sh
                 @ map snd (filter (\<lambda>(q, cells). q + k \<notin> set (r # rest))
                      (enumerate (Suc p) (drop p sh)))"
      using front_old pk by simp
    show ?thesis
      using new old rear by simp
  next
    case False
    have sh'_eq: "sh' = sh"
      using False by (simp add: sh'_def target deleteRow_def)
    have "map snd (filter (\<lambda>(q, cells). q + Suc k \<notin> set rest) (enumerate 1 sh)) = sh"
      using False rest_gt pk by (intro filter_enumerate_all) auto
    moreover have "map snd (filter (\<lambda>(q, cells). q + k \<notin> set (r # rest)) (enumerate 1 sh)) = sh"
      using False rest_gt pk by (intro filter_enumerate_all) auto
    ultimately show ?thesis
      by (simp add: sh'_eq)
  qed
  show ?case
    using IH goal by (simp add: sh'_def)
qed

lemma deleteRows_targets:
  "foldl (\<lambda>sh (index, row). deleteRow sh (int row - int index)) sh (enumerate 0 rs)
     = foldl deleteRow sh (map (\<lambda>N. int (rs ! N) - int N) [0..<length rs])"
proof -
  have "map (\<lambda>(index, row). int row - int index) (enumerate 0 rs)
        = map (\<lambda>N. int (rs ! N) - int N) [0..<length rs]"
    by (rule nth_equalityI) (simp_all add: nth_enumerate_eq)
  moreover have "foldl (\<lambda>sh (index, row). deleteRow sh (int row - int index)) sh (enumerate 0 rs)
        = foldl deleteRow sh (map (\<lambda>(index, row). int row - int index) (enumerate 0 rs))"
    by (simp add: foldl_map case_prod_unfold)
  ultimately show ?thesis by simp
qed

subsection \<open>What update and the filter leave alone\<close>

lemma headers_whereOptions [simp]: "headers (m\<lparr>whereOptions := w\<rparr>) = headers m"
  by (simp add: headers_def)

lemma headers_ranges [simp]: "headers (m\<lparr>ranges := rs\<rparr>) = headers m"
  by (simp add: headers_def)

lemma update_each_frame:
  "ranges (snd (update_each h d ns m)) = ranges m
   \<and> whereOptions (snd (update_each h d ns m)) = whereOptions m
   \<and> configs (snd (update_each h d ns m)) = configs m"
  by (induction ns arbitrary: m) (auto simp: Let_def split: sum.splits)

subsection \<open>Updating the selected rows\<close>

lemma update_each_error:
  "fst (update_each h d ns m) = Inr () \<or> fst (update_each h d ns m) = Inl TypeError"
proof (induction ns arbitrary: m)
  case Nil
  show ?case by simp
next
  case (Cons n ns)
  show ?case
  proof (cases "deserializeRow h (headers m) (plain d)
                  (first_row (getValues (sheet m) (rangeOf n))) []")
    case (Inl e)
    then have "e = TypeError"
      by (rule deserializeRow_error)
    with Inl show ?thesis
      by (simp add: Let_def)
  next
    case (Inr deserialized)
    note des = Inr
    show ?thesis
    proof (cases "serializeRow h (headers m) deserialized []")
      case (Inl e)
      then have "e = TypeError"
        by (rule serializeRow_error)
      with Inl des show ?thesis
        by (simp add: Let_def)
    next
      case (Inr serialized)
      with des show ?thesis
        using Cons.IH by (simp add: Let_def)
    qed
  qed
qed

lemma update_each_returns:
  "map_of d ''__proto__'' = None \<Longrightarrow> fst (update_each h d ns m) = Inr ()"
proof (induction ns arbitrary: m)
  case Nil
  show ?case by simp
next
  case (Cons n ns)
  have "\<forall>name \<in> set ([] :: string list). JStr name \<in> snd ` set (headers m)"
    by simp
  then show ?case
    using Cons.IH [OF Cons.prems]
    by (simp add: Let_def deserializeRow_plain [OF _ Cons.prems] serializeRow_std)
qed

lemma update_each_sheet_other_rows:
  "r \<notin> row ` set ns \<Longrightarrow>
   getValue (sheet (snd (update_each h d ns m))) r c = getValue (sheet m) r c"
proof (induction ns arbitrary: m)
  case Nil
  then show ?case by simp
next
  case (Cons n ns)
  have "r \<noteq> fst (rangeOf n)" and "r \<notin> row ` set ns"
    using Cons.prems by (auto simp: row_def)
  then show ?case
    using Cons.IH by (simp add: Let_def getValue_setValues_other split: sum.splits)
qed

lemma first_row_getValues:
  "first_row (getValues sh (r, c, nr, nc))
     = (if nr = 0 then [] else map (\<lambda>j. getValue sh r (c + j)) [0..<nc])"
  by (cases nr) (simp_all add: first_row_def getValues_def upt_conv_Cons del: upt_Suc)

lemma headers_cong:
  assumes "configs m' = configs m"
    and "\<forall>c. getValue (sheet m') (headerRowNumber (configs m)) c
               = getValue (sheet m) (headerRowNumber (configs m)) c"
  shows "headers m' = headers m"
  using assms by (simp add: headers_def first_row_getValues)

lemma update_each_cong:
  assumes "\<forall>n \<in> set ns. row n \<noteq> headerRowNumber (configs m)"
    and "\<forall>header \<in> snd ` set (headers m).
           obj_get d' (to_string h header) = obj_get d (to_string h header)"
  shows "update_each h d' ns m = update_each h d ns m"
  using assms
proof (induction ns arbitrary: m)
  case Nil
  then show ?case by simp
next
  case (Cons n ns)
  have same: "deserializeRow h (headers m) (plain d') cur []
              = deserializeRow h (headers m) (plain d) cur []" for cur
    using Cons.prems(2) by (rule deserializeRow_cong)
  show ?case
  proof (cases "deserializeRow h (headers m) (plain d)
                  (first_row (getValues (sheet m) (rangeOf n))) []")
    case (Inl e)
    then show ?thesis
      by (simp add: Let_def same)
  next
    case (Inr deserialized)
    note des = Inr
    show ?thesis
    proof (cases "serializeRow h (headers m) deserialized []")
      case (Inl e)
      with des show ?thesis
        by (simp add: Let_def same)
    next
      case (Inr serialized)
      define m' where "m' = m\<lparr>sheet := setValues (sheet m) (rangeOf n) [serialized]\<rparr>"
      have "fst (rangeOf n) \<noteq> headerRowNumber (configs m)"
        using Cons.prems(1) by (simp add: row_def)
      then have hdr: "headers m' = headers m"
        by (intro headers_cong) (simp_all add: m'_def getValue_setValues_other)
      have "update_each h d' ns m' = update_each h d ns m'"
        using Cons.prems hdr by (intro Cons.IH) (simp_all add: m'_def)
      with des Inr show ?thesis
        by (simp add: Let_def same m'_def)
    qed
  qed
qed

subsection \<open>The comparison methods\<close>

lemma num_min_PosInf: "num_min PosInf n = n"
  by (cases n) (simp_all add: num_min_def)

lemma num_max_NegInf: "num_max NegInf n = n"
  by (cases n) (simp_all add: num_max_def)

lemma num_min_commute: "num_min a b = num_min b a"
  by (cases a; cases b) (auto simp: num_min_def)

lemma num_max_commute: "num_max a b = num_max b a"
  by (cases a; cases b) (auto simp: num_max_def)

lemma Math_min_swap: "Math_min h [b1, b2] = Math_min h [b2, b1]"
  by (simp add: Math_min_def num_min_PosInf num_min_commute)

lemma Math_max_swap: "Math_max h [b1, b2] = Math_max h [b2, b1]"
  by (simp add: Math_max_def num_max_NegInf num_max_commute)

lemma call_between:
  "call_method h ''between'' value expected =
     (case spread expected of
        None \<Rightarrow> Inl TypeError
      | Some args \<Rightarrow> Inr (js_gte h value (JNum (Math_min h args)) \<and> js_lte h value (JNum (Math_max h args))))"
  by (simp add: call_method_def methods_def)

lemma call_equal: "call_method h ''equal'' value expected = Inr (loose_eq h value expected)"
  by (simp add: call_method_def methods_def)

lemma call_deepEqual: "call_method h ''deepEqual'' value expected = Inr (strict_eq value expected)"
  by (simp add: call_method_def methods_def)

lemma between_swap:
  "call_method h ''between'' value (JArr [b1, b2]) = call_method h ''between'' value (JArr [b2, b1])"
  by (simp add: call_between spread_def Math_min_swap [of h b1 b2] Math_max_swap [of h b1 b2])

subsection \<open>The filter on one column\<close>

lemma scan_rows_whereOptions [simp]: "scan_rows (m\<lparr>whereOptions := w\<rparr>) = scan_rows m"
  by (simp add: scan_rows_def)

lemma row_notation_whereOptions [simp]: "row_notation (m\<lparr>whereOptions := w\<rparr>) = row_notation m"
  by (rule ext) (simp add: row_notation_def)

lemma entries_foldl: "foldl (\<lambda>total item. total @ [item]) acc kvs = acc @ kvs"
  by (induction kvs arbitrary: acc) simp_all

lemma col_methods_map:
  "map_of kvs ''constructor'' = None \<Longrightarrow> col_methods [(c, JObj kvs)] c = kvs"
  by (simp add: col_methods_def obj_get_def isLiteralObject_def inherited_def
        prototype_functions_def entries_foldl)

lemma col_methods_scalar:
  "\<not> isLiteralObject v \<Longrightarrow> col_methods [(c, v)] c = [(''equal'', v)]"
  by (simp add: col_methods_def obj_get_def)

lemma find_header_Some:
  "find (\<lambda>(index, header). header = JStr c) hs = Some (i, c') \<Longrightarrow>
   c' = JStr c \<and> JStr c \<in> set (map snd hs)"
  by (induction hs) (auto split: if_splits)

lemma find_header_None:
  "find (\<lambda>(index, header). header = JStr c) hs = None \<Longrightarrow> JStr c \<notin> set (map snd hs)"
  by (induction hs) (auto split: if_splits)

lemma where_unknown_single:
  "JStr c \<notin> set (map snd (headers m)) \<Longrightarrow>
   where_rm h [(c, v)] m = (Inl (InvalidCols [c]), m\<lparr>whereOptions := Some [(c, v)]\<rparr>)"
  by (simp add: where_rm_def)

lemma where_known_single:
  assumes "find (\<lambda>(index, header). header = JStr c) (headers m) = Some (i, c')"
  shows "where_rm h [(c, v)] m =
     (case filter_rows h (sheet m) (i, col_methods [(c, v)] c) (scan_rows m) of
        Inl e \<Rightarrow> (Inl e, m\<lparr>whereOptions := Some [(c, v)]\<rparr>)
      | Inr rows \<Rightarrow> (Inr (), m\<lparr>whereOptions := Some [(c, v)], ranges := map (row_notation m) rows\<rparr>))"
  using assms find_header_Some [OF assms]
  by (simp add: where_rm_def split: sum.splits)

lemma filter_rows_cong:
  assumes "\<forall>r \<in> set rows. every_method h (getValue sh r i) ms = every_method h (getValue sh r i) ms'"
  shows "filter_rows h sh (i, ms) rows = filter_rows h sh (i, ms') rows"
  using assms by (induction rows) (simp_all split: sum.splits)

lemma filter_rows_single:
  assumes "\<forall>r \<in> set rows. call_method h name (getValue sh r i) operand = Inr (P r)"
  shows "filter_rows h sh (i, [(name, operand)]) rows = Inr (filter P rows)"
  using assms by (induction rows) simp_all

lemma where_between_swap:
  "fst (where_rm h [(c, JObj [(''between'', JArr [b1, b2])])] m)
     = fst (where_rm h [(c, JObj [(''between'', JArr [b2, b1])])] m)
   \<and> ranges (snd (where_rm h [(c, JObj [(''between'', JArr [b1, b2])])] m))
     = ranges (snd (where_rm h [(c, JObj [(''between'', JArr [b2, b1])])] m))"
proof (cases "find (\<lambda>(index, header). header = JStr c) (headers m)")
  case None
  then have "JStr c \<notin> set (map snd (headers m))"
    by (rule find_header_None)
  then show ?thesis
    by (simp add: where_unknown_single)
next
  case (Some entry)
  obtain i c' where entry: "entry = (i, c')" by (cases entry)
  have same: "filter_rows h (sheet m) (i, [(''between'', JArr [b1, b2])]) (scan_rows m)
            = filter_rows h (sheet m) (i, [(''between'', JArr [b2, b1])]) (scan_rows m)"
    by (rule filter_rows_cong) (simp add: between_swap [of h _ b1 b2])
  show ?thesis
    using Some entry same
    by (simp add: where_known_single col_methods_map split: sum.splits)
qed

lemma between_numbers:
  "call_method h ''between'' (JNum (Fin x)) (JArr [JNum (Fin lo), JNum (Fin hi)])
     = Inr (min lo hi \<le> x \<and> x \<le> max lo hi)"
  by (auto simp: call_between spread_def Math_min_def Math_max_def ToNumber_def ToPrimitive_def
        num_min_def num_max_def js_gte_def js_lte_def js_less_def min_def max_def)

lemma where_empty:
  "where_rm h [] m = (Inr (), m\<lparr>whereOptions := Some [], ranges := map (row_notation m) (scan_rows m)\<rparr>)"
  by (simp add: where_rm_def)

text \<open>
  A clause with one column that is a header, at the first position of that header: a
  scalar value runs the single method \<open>equal\<close>, as the operator map with the single pair
  \<open>equal\<close> does, and \<open>deepEqual\<close> runs the strict comparison; the rows that are kept are
  among those that the scan starts from, in their order.
\<close>

lemma where_single_column:
  assumes "find (\<lambda>(index, header). header = JStr c) (headers m) = Some (i, c')"
  shows "(\<not> isLiteralObject v \<longrightarrow>
            where_rm h [(c, v)] m
              = (Inr (), m\<lparr>whereOptions := Some [(c, v)],
                            ranges := map (row_notation m)
                              (filter (\<lambda>r. loose_eq h (getValue (sheet m) r i) v) (scan_rows m))\<rparr>))
         \<and> where_rm h [(c, JObj [(''deepEqual'', w)])] m
              = (Inr (), m\<lparr>whereOptions := Some [(c, JObj [(''deepEqual'', w)])],
                            ranges := map (row_notation m)
                              (filter (\<lambda>r. strict_eq (getValue (sheet m) r i) w) (scan_rows m))\<rparr>)
         \<and> ranges (snd (where_rm h [(c, JObj [(''equal'', v)])] m))
              = map (row_notation m)
                  (filter (\<lambda>r. loose_eq h (getValue (sheet m) r i) v) (scan_rows m))"
proof -
  have eq_rows: "filter_rows h (sheet m) (i, [(''equal'', v)]) (scan_rows m)
                 = Inr (filter (\<lambda>r. loose_eq h (getValue (sheet m) r i) v) (scan_rows m))"
    by (rule filter_rows_single) (simp add: call_equal)
  have deep_rows: "filter_rows h (sheet m) (i, [(''deepEqual'', w)]) (scan_rows m)
                 = Inr (filter (\<lambda>r. strict_eq (getValue (sheet m) r i) w) (scan_rows m))"
    by (rule filter_rows_single) (simp add: call_deepEqual)
  have scalar: "where_rm h [(c, v)] m
              = (Inr (), m\<lparr>whereOptions := Some [(c, v)],
                            ranges := map (row_notation m)
                              (filter (\<lambda>r. loose_eq h (getValue (sheet m) r i) v) (scan_rows m))\<rparr>)"
    if "\<not> isLiteralObject v"
    using that eq_rows by (simp add: where_known_single [OF assms] col_methods_scalar)
  have sugar: "where_rm h [(c, JObj [(''equal'', v)])] m
              = (Inr (), m\<lparr>whereOptions := Some [(c, JObj [(''equal'', v)])],
                            ranges := map (row_notation m)
                              (filter (\<lambda>r. loose_eq h (getValue (sheet m) r i) v) (scan_rows m))\<rparr>)"
    using eq_rows by (simp add: where_known_single [OF assms] col_methods_map)
  have deep: "where_rm h [(c, JObj [(''deepEqual'', w)])] m
              = (Inr (), m\<lparr>whereOptions := Some [(c, JObj [(''deepEqual'', w)])],
                            ranges := map (row_notation m)
                              (filter (\<lambda>r. strict_eq (getValue (sheet m) r i) w) (scan_rows m))\<rparr>)"
    using deep_rows by (simp add: where_known_single [OF assms] col_methods_map)
  show ?thesis
    using scalar sugar deep by simp
qed

subsection \<open>The tables of the examples\<close>

lemma headers_people:
  "headers people_manager
     = [(1, JStr ''name''), (2, JStr ''age''), (3, JStr ''id''), (4, JStr ''is_active'')]"
  by code_simp


subsection \<open>The documented scenarios\<close>

text \<open>
  The manager of the examples is the one that the constructor builds for the table, and
  the scenarios that the documentation gives for this table come out as documented.
\<close>

lemma people_manager_constructed:
  "from_rm [(''People'', people)] ''People'' = Inr people_manager"
  by code_simp

lemma sheet_not_found:
  "from_rm [(''People'', people)] ''Pets'' = Inl (SheetNotFound ''Pets'')"
  by code_simp

lemma scenario_filter_then_fetch:
  "fst (fetch plain_engine [''name'', ''age'']
         (snd (where_rm plain_engine [(''name'', JStr ''Bob'')] people_manager)))
     = Inr [plain [(''name'', JStr ''Bob''), (''age'', JNum (Fin 35))]]"
  by code_simp

lemma scenario_filter_gte:
  "map row (ranges (snd (where_rm plain_engine [(''age'', JObj [(''gte'', JNum (Fin 30))])]
                           people_manager)))
     = [3]"
  by code_simp

lemma scenario_fetch_empty: "fst (fetch h colNames (m\<lparr>ranges := []\<rparr>)) = Inr []"
  by (simp add: fetch_def)

subsection \<open>Headers that are not text, and inherited members\<close>

text \<open>
  On the table whose second header is the number 2024: no key of a where-clause is that
  header, not even the empty string or the text 2024, while a record is read at the
  property name 2024. A header named like a member of \<^verbatim>\<open>Object.prototype\<close> reads that
  member from a record that has no such field; a header named \<^verbatim>\<open>__proto__\<close> gives no key;
  and a method name that the catalogue inherits is called without an error.
\<close>

lemma scenario_number_header_where:
  "fst (where_rm plain_engine [('''', JNum (Fin 5)), (''zzz'', JNum (Fin 1))] yearly_manager)
     = Inl (InvalidCols ['''', ''zzz''])
   \<and> fst (where_rm plain_engine [(''2024'', JNum (Fin 5))] yearly_manager)
     = Inl (InvalidCols [''2024''])"
  by code_simp

lemma scenario_number_header_update:
  "sheet (snd (update plain_engine [(''2024'', JNum (Fin 9))]
                 (yearly_manager\<lparr>ranges := [RangeNotation (2, 1, 1, 2)]\<rparr>)))
     = [[JStr ''name'', JNum (Fin 2024)], [JStr ''Ann'', JNum (Fin 9)]]
   \<and> sheet (snd (update plain_engine []
                 (yearly_manager\<lparr>ranges := [RangeNotation (2, 1, 1, 2)]\<rparr>)))
     = yearly"
  by code_simp

lemma scenario_inherited_member:
  "serializeRow plain_engine [(1, JStr ''constructor'')] (plain [(''constructor'', JStr ''x'')]) []
     = Inr [JStr ''x'']
   \<and> deserializeRow plain_engine [(1, JStr ''constructor'')] (plain []) [JStr ''x''] []
     = Inr (plain [(''constructor'', JBuiltin ''constructor'')])
   \<and> deserializeRow plain_engine [(1, JStr ''name''), (2, JStr ''toString'')] (plain [])
        [JStr ''Ann''] []
     = Inr (plain [(''name'', JStr ''Ann''), (''toString'', JBuiltin ''toString'')])"
  by code_simp

lemma scenario_proto_header:
  "deserializeRow plain_engine [(1, JStr ''name''), (2, JStr ''__proto__'')] (plain [])
      [JStr ''Ann'', JStr ''x''] []
     = Inr (plain [(''name'', JStr ''Ann'')])"
  by code_simp

lemma scenario_inherited_method:
  "map row (ranges (snd (where_rm plain_engine [(''age'', JObj [(''toString'', JNum (Fin 1))])]
                           people_manager)))
     = [2, 3, 4, 5]
   \<and> fst (where_rm plain_engine [(''age'', JObj [(''nope'', JNum (Fin 1))])] people_manager)
     = Inl TypeError"
  by code_simp

section \<open>The claims of the specification\<close>

text \<open>
  C10: fetch, update, deleteRows, append and prepend never modify the stored RangeSet
  (\<open>ranges\<close>) or the stored where-clause (\<open>whereOptions\<close>): after any of these calls, from
  any state of the manager, both fields have the values they had before the call. The
  same holds for updateOrAppend and updateOrPrepend, which dispatch to them. The filter
  operation stores its clause, refresh is the filter operation with the stored clause
  (and nothing without one), and clear empties both fields.
\<close>

theorem mutators_keep_ranges_and_whereOptions:
  "ranges (snd (fetch h colNames m)) = ranges m
   \<and> whereOptions (snd (fetch h colNames m)) = whereOptions m
   \<and> ranges (snd (update h data m)) = ranges m
   \<and> whereOptions (snd (update h data m)) = whereOptions m
   \<and> ranges (snd (deleteRows m)) = ranges m
   \<and> whereOptions (snd (deleteRows m)) = whereOptions m
   \<and> ranges (snd (append_rm h data m)) = ranges m
   \<and> whereOptions (snd (append_rm h data m)) = whereOptions m
   \<and> ranges (snd (prepend h data m)) = ranges m
   \<and> whereOptions (snd (prepend h data m)) = whereOptions m
   \<and> ranges (snd (updateOrAppend h data m)) = ranges m
   \<and> whereOptions (snd (updateOrAppend h data m)) = whereOptions m
   \<and> ranges (snd (updateOrPrepend h data m)) = ranges m
   \<and> whereOptions (snd (updateOrPrepend h data m)) = whereOptions m
   \<and> whereOptions (snd (where_rm h options m)) = Some options
   \<and> refresh h (m\<lparr>whereOptions := Some options\<rparr>)
       = where_rm h options (m\<lparr>whereOptions := Some options\<rparr>)
   \<and> refresh h (m\<lparr>whereOptions := None\<rparr>) = (Inr (), m\<lparr>whereOptions := None\<rparr>)
   \<and> ranges (snd (clear m)) = []
   \<and> whereOptions (snd (clear m)) = None"
proof -
  have upd: "ranges (snd (update h data m)) = ranges m
             \<and> whereOptions (snd (update h data m)) = whereOptions m"
    by (simp add: update_def update_each_frame)
  have app: "ranges (snd (append_rm h data m)) = ranges m
             \<and> whereOptions (snd (append_rm h data m)) = whereOptions m"
    by (simp add: append_rm_def Let_def split: sum.splits)
  have pre: "ranges (snd (prepend h data m)) = ranges m
             \<and> whereOptions (snd (prepend h data m)) = whereOptions m"
    by (simp add: prepend_def Let_def split: sum.splits)
  have del: "ranges (snd (deleteRows m)) = ranges m
             \<and> whereOptions (snd (deleteRows m)) = whereOptions m"
    by (simp add: deleteRows_def)
  have fet: "ranges (snd (fetch h colNames m)) = ranges m
             \<and> whereOptions (snd (fetch h colNames m)) = whereOptions m"
    by (simp add: fetch_def)
  have whr: "whereOptions (snd (where_rm h options m)) = Some options"
    by (simp add: where_rm_def Let_def split: sum.splits)
  have clr: "ranges (snd (clear m)) = [] \<and> whereOptions (snd (clear m)) = None"
    by (simp add: clear_def)
  show ?thesis
    using upd app pre del fet whr clr
    by (simp add: updateOrAppend_def updateOrPrepend_def refresh_def)
qed

theorem mutators_keep_ranges_and_whereOptions_witness:
  "ranges (snd (deleteRows (snd (where_rm plain_engine [(''name'', JStr ''Bob'')] people_manager))))
     = [RangeNotation (3, 1, 1, 4)]
   \<and> whereOptions (snd (deleteRows (snd (where_rm plain_engine [(''name'', JStr ''Bob'')] people_manager))))
     = Some [(''name'', JStr ''Bob'')]"
proof -
  have "snd (where_rm plain_engine [(''name'', JStr ''Bob'')] people_manager)
          = people_manager\<lparr>whereOptions := Some [(''name'', JStr ''Bob'')],
                            ranges := [RangeNotation (3, 1, 1, 4)]\<rparr>"
    by code_simp
  then show ?thesis
    using mutators_keep_ranges_and_whereOptions
            [where m = "snd (where_rm plain_engine [(''name'', JStr ''Bob'')] people_manager)"]
    by simp
qed

text \<open>
  C9: for every pair of bounds \<open>b1\<close>, \<open>b2\<close>, every column name and every table, the filter
  with \<open>between: [b1, b2]\<close> and the filter with \<open>between: [b2, b1]\<close> have the same outcome
  and select the same rows; on numbers the operator is the inclusive range test
  \<open>min \<le> value \<le> max\<close> of its two bounds.
\<close>

theorem between_bounds_order:
  "fst (where_rm h [(c, JObj [(''between'', JArr [b1, b2])])] m)
     = fst (where_rm h [(c, JObj [(''between'', JArr [b2, b1])])] m)
   \<and> ranges (snd (where_rm h [(c, JObj [(''between'', JArr [b1, b2])])] m))
     = ranges (snd (where_rm h [(c, JObj [(''between'', JArr [b2, b1])])] m))
   \<and> call_method h ''between'' value (JArr [b1, b2])
     = call_method h ''between'' value (JArr [b2, b1])
   \<and> call_method h ''between'' (JNum (Fin x)) (JArr [JNum (Fin lo), JNum (Fin hi)])
     = Inr (min lo hi \<le> x \<and> x \<le> max lo hi)"
  using where_between_swap [of h c b1 b2 m] between_swap [of h "value" b1 b2]
    between_numbers [of h x lo hi]
  by simp

theorem between_bounds_order_witness:
  "map row (ranges (snd (where_rm plain_engine
      [(''age'', JObj [(''between'', JArr [JNum (Fin 30), JNum (Fin 20)])])] people_manager)))
     = [2, 4]
   \<and> map row (ranges (snd (where_rm plain_engine
      [(''age'', JObj [(''between'', JArr [JNum (Fin 20), JNum (Fin 30)])])] people_manager)))
     = [2, 4]"
proof -
  have "map row (ranges (snd (where_rm plain_engine
      [(''age'', JObj [(''between'', JArr [JNum (Fin 30), JNum (Fin 20)])])] people_manager)))
     = [2, 4]"
    by code_simp
  then show ?thesis
    using between_bounds_order [of plain_engine "''age''" "JNum (Fin 30)" "JNum (Fin 20)"
            people_manager]
    by simp
qed

text \<open>
  C6: deleteRows issues one deletion for each descriptor of the RangeSet, in order, and the
  Nth deletion (counted from 0 here) targets the row of the Nth descriptor minus N, the
  number of rows already deleted. When the descriptors name rows \<open>r1 < r2 < ... < rk\<close>,
  this compensation makes the result the table without exactly those rows. On an empty
  RangeSet nothing happens.
\<close>

theorem deleteRows_compensates_shift:
  "(ranges m = [] \<longrightarrow> deleteRows m = (Inr (), m))
   \<and> fst (deleteRows m) = Inr ()
   \<and> sheet (snd (deleteRows m))
       = foldl deleteRow (sheet m)
           (map (\<lambda>N. int (row (ranges m ! N)) - int N) [0..<length (ranges m)])
   \<and> (sorted_wrt (<) (map row (ranges m)) \<and> (\<forall>n \<in> set (ranges m). 1 \<le> row n)
        \<longrightarrow> sheet (snd (deleteRows m)) = without_rows (sheet m) (map row (ranges m)))"
proof -
  have targets: "sheet (snd (deleteRows m))
       = foldl deleteRow (sheet m)
           (map (\<lambda>N. int (row (ranges m ! N)) - int N) [0..<length (ranges m)])"
  proof -
    have eq: "map (\<lambda>N. int (map row (ranges m) ! N) - int N) [0..<length (map row (ranges m))]
              = map (\<lambda>N. int (row (ranges m ! N)) - int N) [0..<length (ranges m)]"
      by (rule nth_equalityI) simp_all
    have "sheet (snd (deleteRows m))
          = foldl (\<lambda>sh (index, row). deleteRow sh (int row - int index)) (sheet m)
              (enumerate 0 (map row (ranges m)))"
      by (cases "ranges m = []") (simp_all add: deleteRows_def)
    also have "\<dots> = foldl deleteRow (sheet m)
              (map (\<lambda>N. int (map row (ranges m) ! N) - int N) [0..<length (map row (ranges m))])"
      by (rule deleteRows_targets)
    finally show ?thesis
      by (simp only: eq)
  qed
  have removed: "sheet (snd (deleteRows m)) = without_rows (sheet m) (map row (ranges m))"
    if "sorted_wrt (<) (map row (ranges m))" and "\<forall>n \<in> set (ranges m). 1 \<le> row n"
  proof -
    have "\<forall>r \<in> set (map row (ranges m)). 0 < r"
      using that(2) by auto
    then have "foldl (\<lambda>sh (index, row). deleteRow sh (int row - int index)) (sheet m)
                 (enumerate 0 (map row (ranges m)))
               = without_rows (sheet m) (map row (ranges m))"
      using delete_fold [OF that(1), of 0 "sheet m"] by (simp add: without_rows_def)
    moreover have "without_rows (sheet m) [] = sheet m"
      by (simp add: without_rows_def filter_enumerate_all)
    ultimately show ?thesis
      by (cases "ranges m = []") (simp_all add: deleteRows_def)
  qed
  show ?thesis
    using targets removed by (simp add: deleteRows_def)
qed

theorem deleteRows_compensates_shift_witness:
  "sorted_wrt (<) (map row [RangeNotation (2, 1, 1, 4), RangeNotation (4, 1, 1, 4)])
   \<and> sheet (snd (deleteRows
        (people_manager\<lparr>ranges := [RangeNotation (2, 1, 1, 4), RangeNotation (4, 1, 1, 4)]\<rparr>)))
     = [[JStr ''name'', JStr ''age'', JStr ''id'', JStr ''is_active''],
        [JStr ''Bob'', JNum (Fin 35), JNum (Fin 2), JBool True]]"
proof -
  have a: "sorted_wrt (<) (map row [RangeNotation (2, 1, 1, 4), RangeNotation (4, 1, 1, 4)])"
    by (simp add: row_def)
  have b: "without_rows people [2, 4]
           = [[JStr ''name'', JStr ''age'', JStr ''id'', JStr ''is_active''],
              [JStr ''Bob'', JNum (Fin 35), JNum (Fin 2), JBool True]]"
    by code_simp
  have c: "\<forall>n \<in> set [RangeNotation (2, 1, 1, 4), RangeNotation (4, 1, 1, 4)]. 1 \<le> row n"
    by (simp add: row_def)
  show ?thesis
    using a b c deleteRows_compensates_shift
      [of "people_manager\<lparr>ranges := [RangeNotation (2, 1, 1, 4), RangeNotation (4, 1, 1, 4)]\<rparr>",
       THEN conjunct2, THEN conjunct2, THEN conjunct2]
    by (simp add: people_manager_def row_def)
qed

text \<open>
  C7, as the code behaves. On an empty RangeSet, updateOrAppend does what append does: it
  writes one row, the serialization of the record against the headers with no current
  values, at the position after the last populated row, and leaves every other row as it
  was. On a non-empty RangeSet it does what update does, and this adds a row whenever the
  RangeSet names the row after the last populated row, which is what the filter operation
  selects with an empty clause: on the table of the example (last populated row 4) the
  RangeSet of the empty clause names the rows 2, 3, 4 and 5, updateOrAppend with the name
  Zoe writes the four rows, and the last populated row is then row 5.
\<close>

theorem updateOrAppend_adds_row_after_filter:
  "(ranges m = [] \<longrightarrow>
      updateOrAppend h data m = append_rm h data m
      \<and> (\<exists>values.
            serializeRow h (headers m) (plain data) [] = Inr values
            \<and> fst (updateOrAppend h data m) = Inr ()
            \<and> getValues (sheet (snd (updateOrAppend h data m)))
                  (getLastRow (sheet m) + 1, 1, 1, length (headers m))
                = [values]
            \<and> (\<forall>r c. r \<noteq> getLastRow (sheet m) + 1 \<longrightarrow>
                  getValue (sheet (snd (updateOrAppend h data m))) r c
                    = getValue (sheet m) r c)))
   \<and> (ranges m \<noteq> [] \<longrightarrow> updateOrAppend h data m = update h data m)
   \<and> map row (ranges (snd (where_rm plain_engine [] people_manager))) = [2, 3, 4, 5]
   \<and> getLastRow (sheet (snd (where_rm plain_engine [] people_manager))) = 4
   \<and> updateOrAppend plain_engine [(''name'', JStr ''Zoe'')]
        (snd (where_rm plain_engine [] people_manager))
     = (Inr (),
        (snd (where_rm plain_engine [] people_manager))
          \<lparr>sheet := [[JStr ''name'', JStr ''age'', JStr ''id'', JStr ''is_active''],
                     [JStr ''Zoe'', JNum (Fin 28), JNum (Fin 1), JBool True],
                     [JStr ''Zoe'', JNum (Fin 35), JNum (Fin 2), JBool True],
                     [JStr ''Zoe'', JNum (Fin 23), JNum (Fin 3), JStr ''''],
                     [JStr ''Zoe'', JStr '''', JStr '''', JStr '''']]\<rparr>)
   \<and> getLastRow (sheet (snd (updateOrAppend plain_engine [(''name'', JStr ''Zoe'')]
        (snd (where_rm plain_engine [] people_manager)))))
     = 5"
proof (intro conjI impI)
  assume empty: "ranges m = []"
  define ser where
    "ser = map (\<lambda>(index, header).
                  js_or (js_or (obj_get data (to_string h header)) (arr_get [] (int index - 1)))
                        (JStr ''''))
               (headers m)"
  define L where "L = getLastRow (sheet m)"
  have vals: "serializeRow h (headers m) (plain data) [] = Inr ser"
    by (simp add: serializeRow_plain ser_def)
  have len: "length ser = length (headers m)"
    by (simp add: ser_def)
  have after: "sheet (snd (updateOrAppend h data m)) = setRowValues (sheet m) (L + 1) 1 ser"
    using empty
    by (simp add: updateOrAppend_def append_rm_def Let_def vals setValues_one_row L_def)
  show "updateOrAppend h data m = append_rm h data m"
    using empty by (simp add: updateOrAppend_def)
  have "map (\<lambda>j. getValue (setRowValues (sheet m) (L + 1) 1 ser) (L + 1) (1 + j)) [0..<length ser]
        = map (\<lambda>j. ser ! j) [0..<length ser]"
    by (rule map_cong) (simp_all add: getValue_setRowValues_same)
  then have written: "getValues (setRowValues (sheet m) (L + 1) 1 ser) (L + 1, 1, 1, length ser)
                      = [ser]"
    by (simp add: getValues_def map_nth)
  show "\<exists>values.
          serializeRow h (headers m) (plain data) [] = Inr values
          \<and> fst (updateOrAppend h data m) = Inr ()
          \<and> getValues (sheet (snd (updateOrAppend h data m)))
                (getLastRow (sheet m) + 1, 1, 1, length (headers m))
              = [values]
          \<and> (\<forall>r c. r \<noteq> getLastRow (sheet m) + 1 \<longrightarrow>
                getValue (sheet (snd (updateOrAppend h data m))) r c = getValue (sheet m) r c)"
  proof (intro exI [of _ ser] conjI)
    show "serializeRow h (headers m) (plain data) [] = Inr ser"
      by (rule vals)
    show "fst (updateOrAppend h data m) = Inr ()"
      using empty by (simp add: updateOrAppend_def append_rm_def Let_def vals)
    show "getValues (sheet (snd (updateOrAppend h data m)))
            (getLastRow (sheet m) + 1, 1, 1, length (headers m)) = [ser]"
      using written by (simp add: after len L_def)
    show "\<forall>r c. r \<noteq> getLastRow (sheet m) + 1 \<longrightarrow>
            getValue (sheet (snd (updateOrAppend h data m))) r c = getValue (sheet m) r c"
      by (simp add: after L_def getValue_setRowValues_other)
  qed
next
  assume "ranges m \<noteq> []"
  then show "updateOrAppend h data m = update h data m"
    by (simp add: updateOrAppend_def)
next
  show "map row (ranges (snd (where_rm plain_engine [] people_manager))) = [2, 3, 4, 5]"
    by code_simp
next
  show "getLastRow (sheet (snd (where_rm plain_engine [] people_manager))) = 4"
    by code_simp
next
  show "updateOrAppend plain_engine [(''name'', JStr ''Zoe'')]
        (snd (where_rm plain_engine [] people_manager))
     = (Inr (),
        (snd (where_rm plain_engine [] people_manager))
          \<lparr>sheet := [[JStr ''name'', JStr ''age'', JStr ''id'', JStr ''is_active''],
                     [JStr ''Zoe'', JNum (Fin 28), JNum (Fin 1), JBool True],
                     [JStr ''Zoe'', JNum (Fin 35), JNum (Fin 2), JBool True],
                     [JStr ''Zoe'', JNum (Fin 23), JNum (Fin 3), JStr ''''],
                     [JStr ''Zoe'', JStr '''', JStr '''', JStr '''']]\<rparr>)"
    by code_simp
next
  show "getLastRow (sheet (snd (updateOrAppend plain_engine [(''name'', JStr ''Zoe'')]
        (snd (where_rm plain_engine [] people_manager))))) = 5"
    by code_simp
qed

theorem updateOrAppend_adds_row_after_filter_witness:
  "ranges people_manager = []
   \<and> sheet (snd (updateOrAppend plain_engine
         [(''name'', JStr ''Zoe''), (''age'', JNum (Fin 30))] people_manager))
     = people @ [[JStr ''Zoe'', JNum (Fin 30), JStr '''', JStr '''']]
   \<and> getValues (sheet (snd (updateOrAppend plain_engine
         [(''name'', JStr ''Zoe''), (''age'', JNum (Fin 30))] people_manager))) (5, 1, 1, 4)
     = [[JStr ''Zoe'', JNum (Fin 30), JStr '''', JStr '''']]
   \<and> ranges (snd (where_rm plain_engine [] people_manager))
     = [RangeNotation (2, 1, 1, 4), RangeNotation (3, 1, 1, 4), RangeNotation (4, 1, 1, 4),
        RangeNotation (5, 1, 1, 4)]
   \<and> updateOrAppend plain_engine [(''name'', JStr ''Zoe'')]
        (snd (where_rm plain_engine [] people_manager))
     = update plain_engine [(''name'', JStr ''Zoe'')]
        (snd (where_rm plain_engine [] people_manager))"
proof -
  have a: "ranges people_manager = []"
    by (simp add: people_manager_def)
  have b: "getLastRow (sheet people_manager) = 4"
    by code_simp
  have c: "serializeRow plain_engine (headers people_manager)
             (plain [(''name'', JStr ''Zoe''), (''age'', JNum (Fin 30))]) []
           = Inr [JStr ''Zoe'', JNum (Fin 30), JStr '''', JStr '''']"
    by code_simp
  have d: "\<exists>values.
             serializeRow plain_engine (headers people_manager)
               (plain [(''name'', JStr ''Zoe''), (''age'', JNum (Fin 30))]) [] = Inr values
             \<and> getValues (sheet (snd (updateOrAppend plain_engine
                   [(''name'', JStr ''Zoe''), (''age'', JNum (Fin 30))] people_manager)))
                 (getLastRow (sheet people_manager) + 1, 1, 1, length (headers people_manager))
               = [values]"
    using a updateOrAppend_adds_row_after_filter
      [of people_manager plain_engine "[(''name'', JStr ''Zoe''), (''age'', JNum (Fin 30))]",
       THEN conjunct1]
    by blast
  have len: "length (headers people_manager) = 4"
    by (simp add: headers_people)
  have e: "getValues (sheet (snd (updateOrAppend plain_engine
               [(''name'', JStr ''Zoe''), (''age'', JNum (Fin 30))] people_manager)))
             (5, 1, 1, 4)
           = [[JStr ''Zoe'', JNum (Fin 30), JStr '''', JStr '''']]"
    using d unfolding b len c by simp
  have f: "sheet (snd (updateOrAppend plain_engine
               [(''name'', JStr ''Zoe''), (''age'', JNum (Fin 30))] people_manager))
           = people @ [[JStr ''Zoe'', JNum (Fin 30), JStr '''', JStr '''']]"
    by code_simp
  have g: "ranges (snd (where_rm plain_engine [] people_manager))
           = [RangeNotation (2, 1, 1, 4), RangeNotation (3, 1, 1, 4), RangeNotation (4, 1, 1, 4),
              RangeNotation (5, 1, 1, 4)]"
    by code_simp
  then have "ranges (snd (where_rm plain_engine [] people_manager)) \<noteq> []"
    by simp
  then have i: "updateOrAppend plain_engine [(''name'', JStr ''Zoe'')]
                  (snd (where_rm plain_engine [] people_manager))
                = update plain_engine [(''name'', JStr ''Zoe'')]
                    (snd (where_rm plain_engine [] people_manager))"
    using updateOrAppend_adds_row_after_filter
      [of "snd (where_rm plain_engine [] people_manager)" plain_engine
          "[(''name'', JStr ''Zoe'')]",
       THEN conjunct2, THEN conjunct1]
    by blast
  show ?thesis
    using a e f g i by simp
qed

text \<open>
  C1, as the code behaves: with an empty where-clause the scan keeps every row it starts
  from, and it starts from \<open>getLastRow\<close> rows beginning at the first data row. On the table
  of the example (a header and three data rows, last populated row 4) the RangeSet names
  the rows 2, 3, 4 and 5: one descriptor more than there are data rows, the last one for
  the row after the last populated row.
\<close>

theorem where_empty_clause_scans_past_last_row:
  "where_rm h [] m
     = (Inr (), m\<lparr>whereOptions := Some [], ranges := map (row_notation m) (scan_rows m)\<rparr>)
   \<and> length (scan_rows m) = getLastRow (sheet m)
   \<and> getLastRow (sheet people_manager) = 4
   \<and> map row (ranges (snd (where_rm plain_engine [] people_manager))) = [2, 3, 4, 5]"
proof -
  have "getLastRow (sheet people_manager) = 4"
    by code_simp
  moreover have "map row (ranges (snd (where_rm plain_engine [] people_manager))) = [2, 3, 4, 5]"
    by code_simp
  ultimately show ?thesis
    by (simp add: where_empty scan_rows_def)
qed




text \<open>
  C5, amended: update never fails with an unknown-column error, whatever the keys of the
  record: it returns normally, or throws a \<^verbatim>\<open>TypeError\<close>, and it returns normally from
  every state when the record has no own property named \<^verbatim>\<open>__proto__\<close>. A key of the record
  that is not the property name of a header is ignored: when no descriptor names the
  header row, two records that read the same at the property name of every header give
  the same update.
\<close>

theorem update_ignores_unknown_columns:
  "(fst (update h data m) = Inr () \<or> fst (update h data m) = Inl TypeError)
   \<and> (map_of data ''__proto__'' = None \<longrightarrow> fst (update h data m) = Inr ())
   \<and> ((\<forall>n \<in> set (ranges m). row n \<noteq> headerRowNumber (configs m))
        \<and> (\<forall>name \<in> set (header_names h (headers m)). obj_get data' name = obj_get data name)
       \<longrightarrow> update h data' m = update h data m)"
proof (intro conjI impI)
  show "fst (update h data m) = Inr () \<or> fst (update h data m) = Inl TypeError"
    using update_each_error [of h data "ranges m" m] by (simp add: update_def)
next
  assume "map_of data ''__proto__'' = None"
  then show "fst (update h data m) = Inr ()"
    by (simp add: update_def update_each_returns)
next
  assume a: "(\<forall>n \<in> set (ranges m). row n \<noteq> headerRowNumber (configs m))
        \<and> (\<forall>name \<in> set (header_names h (headers m)). obj_get data' name = obj_get data name)"
  then have "\<forall>header \<in> snd ` set (headers m).
               obj_get data' (to_string h header) = obj_get data (to_string h header)"
    by (force simp: header_names_def)
  with a show "update h data' m = update h data m"
    using update_each_cong [of "ranges m" m data' h data] by (simp add: update_def)
qed

theorem update_ignores_unknown_columns_witness:
  "map_of [(''height'', JNum (Fin 180)), (''2024'', JNum (Fin 9))] ''__proto__'' = None
   \<and> fst (update plain_engine [(''height'', JNum (Fin 180)), (''2024'', JNum (Fin 9))]
        (yearly_manager\<lparr>ranges := [RangeNotation (2, 1, 1, 2)]\<rparr>))
     = Inr ()
   \<and> row (RangeNotation (2, 1, 1, 2)) \<noteq> headerRowNumber (configs yearly_manager)
   \<and> map (obj_get [(''height'', JNum (Fin 180)), (''2024'', JNum (Fin 9))])
         (header_names plain_engine (headers yearly_manager))
     = map (obj_get [(''2024'', JNum (Fin 9))]) (header_names plain_engine (headers yearly_manager))
   \<and> update plain_engine [(''height'', JNum (Fin 180)), (''2024'', JNum (Fin 9))]
        (yearly_manager\<lparr>ranges := [RangeNotation (2, 1, 1, 2)]\<rparr>)
     = update plain_engine [(''2024'', JNum (Fin 9))]
        (yearly_manager\<lparr>ranges := [RangeNotation (2, 1, 1, 2)]\<rparr>)
   \<and> sheet (snd (update plain_engine [(''height'', JNum (Fin 180)), (''2024'', JNum (Fin 9))]
        (yearly_manager\<lparr>ranges := [RangeNotation (2, 1, 1, 2)]\<rparr>)))
     = [[JStr ''name'', JNum (Fin 2024)], [JStr ''Ann'', JNum (Fin 9)]]"
proof -
  have names: "header_names plain_engine (headers yearly_manager) = [''name'', ''2024'']"
    by code_simp
  have hdr: "headers (yearly_manager\<lparr>ranges := [RangeNotation (2, 1, 1, 2)]\<rparr>)
             = headers yearly_manager"
    by simp
  have a: "\<forall>n \<in> set [RangeNotation (2, 1, 1, 2)]. row n \<noteq> headerRowNumber (configs yearly_manager)"
    by (simp add: row_def yearly_manager_def)
  have b: "\<forall>name \<in> set (header_names plain_engine (headers yearly_manager)).
             obj_get [(''height'', JNum (Fin 180)), (''2024'', JNum (Fin 9))] name
               = obj_get [(''2024'', JNum (Fin 9))] name"
    by (simp add: names obj_get_def)
  have c: "map_of [(''height'', JNum (Fin 180)), (''2024'', JNum (Fin 9))] ''__proto__'' = None"
    by simp
  have d: "fst (update plain_engine [(''height'', JNum (Fin 180)), (''2024'', JNum (Fin 9))]
             (yearly_manager\<lparr>ranges := [RangeNotation (2, 1, 1, 2)]\<rparr>)) = Inr ()"
    using c update_ignores_unknown_columns
      [of plain_engine "[(''height'', JNum (Fin 180)), (''2024'', JNum (Fin 9))]"
          "yearly_manager\<lparr>ranges := [RangeNotation (2, 1, 1, 2)]\<rparr>",
       THEN conjunct2, THEN conjunct1]
    by blast
  have e: "update plain_engine [(''height'', JNum (Fin 180)), (''2024'', JNum (Fin 9))]
             (yearly_manager\<lparr>ranges := [RangeNotation (2, 1, 1, 2)]\<rparr>)
           = update plain_engine [(''2024'', JNum (Fin 9))]
               (yearly_manager\<lparr>ranges := [RangeNotation (2, 1, 1, 2)]\<rparr>)"
    using a b update_ignores_unknown_columns
      [of plain_engine "[(''2024'', JNum (Fin 9))]"
          "yearly_manager\<lparr>ranges := [RangeNotation (2, 1, 1, 2)]\<rparr>"
          "[(''height'', JNum (Fin 180)), (''2024'', JNum (Fin 9))]",
       THEN conjunct2, THEN conjunct2]
    by (simp add: hdr)
  have written: "sheet (snd (update plain_engine
                    [(''height'', JNum (Fin 180)), (''2024'', JNum (Fin 9))]
                    (yearly_manager\<lparr>ranges := [RangeNotation (2, 1, 1, 2)]\<rparr>)))
                 = [[JStr ''name'', JNum (Fin 2024)], [JStr ''Ann'', JNum (Fin 9)]]"
    by code_simp
  show ?thesis
    using a b c d e written by (simp add: names)
qed

text \<open>
  The claim C5 as it is written fails: on the table of the example, with the row of Bob
  selected, an update whose record has the unknown key \<open>height\<close> returns normally and
  leaves the manager and its sheet as they were; with the age 36 beside the unknown key
  it returns normally and writes the age.
\<close>

theorem update_unknown_column_counterexample:
  "JStr ''height'' \<notin> set (map snd (headers (people_manager\<lparr>ranges := [RangeNotation (3, 1, 1, 4)]\<rparr>)))
   \<and> update plain_engine [(''height'', JNum (Fin 180))]
        (people_manager\<lparr>ranges := [RangeNotation (3, 1, 1, 4)]\<rparr>)
     = (Inr (), people_manager\<lparr>ranges := [RangeNotation (3, 1, 1, 4)]\<rparr>)
   \<and> update plain_engine [(''height'', JNum (Fin 180)), (''age'', JNum (Fin 36))]
        (people_manager\<lparr>ranges := [RangeNotation (3, 1, 1, 4)]\<rparr>)
     = (Inr (),
        people_manager
          \<lparr>ranges := [RangeNotation (3, 1, 1, 4)],
           sheet := [[JStr ''name'', JStr ''age'', JStr ''id'', JStr ''is_active''],
                     [JStr ''Alice'', JNum (Fin 28), JNum (Fin 1), JBool True],
                     [JStr ''Bob'', JNum (Fin 36), JNum (Fin 2), JBool True],
                     [JStr ''Charlie'', JNum (Fin 23), JNum (Fin 3), JBool False]]\<rparr>)"
  by code_simp

text \<open>
  C4, as the code behaves. The method \<open>equal\<close> is the loose comparison and \<open>deepEqual\<close> the
  strict one, and a scalar value in a clause runs \<open>equal\<close>; but the rows that are compared
  are those that the scan starts from, which end one row after the last populated row. On
  the table of the example (last populated row 4), the clause with the age \<open>0\<close> selects
  row 5, whose cells are blank, though no data row has this age; the clause with
  \<open>is_active\<close> \<open>false\<close> selects the rows 4 and 5; and \<open>deepEqual\<close> with the empty text on the
  name selects row 5. On the data rows the two comparisons tell the number 35 from the
  text 35 as they should.
\<close>

theorem where_equal_selects_row_after_table:
  "call_method h ''equal'' value v = Inr (loose_eq h value v)
   \<and> call_method h ''deepEqual'' value v = Inr (strict_eq value v)
   \<and> col_methods [(c, JStr s)] c = [(''equal'', JStr s)]
   \<and> col_methods [(c, JNum n)] c = [(''equal'', JNum n)]
   \<and> col_methods [(c, JBool b)] c = [(''equal'', JBool b)]
   \<and> getLastRow (sheet people_manager) = 4
   \<and> map row (ranges (snd (where_rm plain_engine [(''age'', JNum (Fin 0))] people_manager)))
       = [5]
   \<and> map row (ranges (snd (where_rm plain_engine [(''is_active'', JBool False)]
                             people_manager)))
       = [4, 5]
   \<and> map row (ranges (snd (where_rm plain_engine [(''name'', JObj [(''deepEqual'', JStr '''')])]
                             people_manager)))
       = [5]
   \<and> map row (ranges (snd (where_rm plain_engine [(''age'', JStr ''35'')] people_manager)))
       = [3]
   \<and> map row (ranges (snd (where_rm plain_engine [(''age'', JObj [(''equal'', JStr ''35'')])]
                             people_manager)))
       = [3]
   \<and> map row (ranges (snd (where_rm plain_engine
                             [(''age'', JObj [(''deepEqual'', JNum (Fin 35))])] people_manager)))
       = [3]
   \<and> map row (ranges (snd (where_rm plain_engine
                             [(''age'', JObj [(''deepEqual'', JStr ''35'')])] people_manager)))
       = []"
proof (intro conjI)
  show "call_method h ''equal'' value v = Inr (loose_eq h value v)"
    by (rule call_equal)
  show "call_method h ''deepEqual'' value v = Inr (strict_eq value v)"
    by (rule call_deepEqual)
  show "col_methods [(c, JStr s)] c = [(''equal'', JStr s)]"
    by (simp add: col_methods_scalar isLiteralObject_def)
  show "col_methods [(c, JNum n)] c = [(''equal'', JNum n)]"
    by (simp add: col_methods_scalar isLiteralObject_def)
  show "col_methods [(c, JBool b)] c = [(''equal'', JBool b)]"
    by (simp add: col_methods_scalar isLiteralObject_def)
  show "getLastRow (sheet people_manager) = 4"
    by code_simp
  show "map row (ranges (snd (where_rm plain_engine [(''age'', JNum (Fin 0))] people_manager)))
       = [5]"
    by code_simp
  show "map row (ranges (snd (where_rm plain_engine [(''is_active'', JBool False)]
                             people_manager)))
       = [4, 5]"
    by code_simp
  show "map row (ranges (snd (where_rm plain_engine [(''name'', JObj [(''deepEqual'', JStr '''')])]
                             people_manager)))
       = [5]"
    by code_simp
  show "map row (ranges (snd (where_rm plain_engine [(''age'', JStr ''35'')] people_manager)))
       = [3]"
    by code_simp
  show "map row (ranges (snd (where_rm plain_engine [(''age'', JObj [(''equal'', JStr ''35'')])]
                             people_manager)))
       = [3]"
    by code_simp
  show "map row (ranges (snd (where_rm plain_engine
                             [(''age'', JObj [(''deepEqual'', JNum (Fin 35))])] people_manager)))
       = [3]"
    by code_simp
  show "map row (ranges (snd (where_rm plain_engine
                             [(''age'', JObj [(''deepEqual'', JStr ''35'')])] people_manager)))
       = []"
    by code_simp
qed

text \<open>
  C3, amended: for a header mapping with the positions \<open>1..N\<close>, none of whose property names
  is the name of a member of \<^verbatim>\<open>Object.prototype\<close>, and a record whose value is truthy
  (neither missing nor \<open>0\<close>, \<open>NaN\<close>, \<open>false\<close>, \<open>null\<close> or the empty string) at every name of
  a header, deserializing the serialized record gives, for every \<open>currentRow\<close>, the record
  restricted to the names of the headers; when the keys of the record are exactly these
  names, this is the record itself.
\<close>

theorem serialize_deserialize_roundtrip:
  assumes "map fst hs = [1..<Suc (length hs)]"
    and "\<forall>name \<in> set (header_names h hs). truthy (obj_get record name)"
    and "\<forall>name \<in> set (header_names h hs). obj_get [] name = JUndefined"
  shows "\<exists>cells result.
           serializeRow h hs (plain record) currentRow = Inr cells
           \<and> deserializeRow h hs (plain []) cells [] = Inr (plain result)
           \<and> distinct (map fst result)
           \<and> map_of result = map_of record |` set (header_names h hs)
           \<and> (set (map fst record) = set (header_names h hs) \<longrightarrow> map_of result = map_of record)"
proof -
  define fs where "fs = map (\<lambda>(index, header). (index, to_string h header)) hs"
  define cells where "cells = map (\<lambda>(index, header). obj_get record (to_string h header)) hs"
  define result where
    "result = foldl (\<lambda>total (index, name).
                       obj_set name (js_or (obj_get [] name) (arr_get cells (int index - 1)))
                         total)
                    [] fs"
  have names: "header_names h hs = map snd fs"
    by (simp add: header_names_def fs_def split_def)
  have in_fs: "\<exists>header. (i, header) \<in> set hs \<and> to_string h header = k"
    if "(i, k) \<in> set fs" for i k
    using that by (auto simp: fs_def)
  have no_proto: "name \<noteq> ''__proto__''" if "name \<in> snd ` set fs" for name
  proof -
    have "obj_get [] name = JUndefined"
      using that assms(3) unfolding names by auto
    then show ?thesis
      by (rule obj_get_undefined_not_proto [rotated]) simp
  qed
  have ser: "serializeRow h hs (plain record) currentRow = Inr cells"
  proof -
    have "map (\<lambda>(index, header).
                 js_or (js_or (obj_get record (to_string h header))
                          (arr_get currentRow (int index - 1)))
                       (JStr '''')) hs
          = cells"
      unfolding cells_def using assms(2)
      by (intro map_cong) (auto simp: js_or_def header_names_def)
    then show ?thesis
      by (simp add: serializeRow_plain)
  qed
  have "filter (\<lambda>(index, name). name \<noteq> ''__proto__'') fs = fs"
    by (rule filter_True) (use no_proto in force)
  then have des: "deserializeRow h hs (plain []) cells [] = Inr (plain result)"
    using deserializeRow_plain [of "[]" hs "[]" h cells]
    by (simp add: selected_fields_all result_def plain_def fs_def)
  have dist: "distinct (map fst result)"
    unfolding result_def by (rule collect_distinct) simp
  have lookup: "map_of result k
                = (if k \<in> set (header_names h hs) then Some (obj_get record k) else None)" for k
  proof -
    have "\<forall>i. (i, k) \<in> set fs \<longrightarrow>
            js_or (obj_get [] k) (arr_get cells (int i - 1)) = obj_get record k"
    proof (intro allI impI)
      fix i
      assume mem: "(i, k) \<in> set fs"
      then obtain header where header: "(i, header) \<in> set hs" "to_string h header = k"
        using in_fs by blast
      have "obj_get [] k = JUndefined"
        using mem assms(3) by (force simp: names)
      moreover have "arr_get cells (int i - 1) = obj_get record k"
        using arr_get_positions [OF assms(1) header(1),
                of "\<lambda>header. obj_get record (to_string h header)"] header(2)
        by (simp add: cells_def)
      ultimately show "js_or (obj_get [] k) (arr_get cells (int i - 1)) = obj_get record k"
        by (simp add: js_or_def)
    qed
    then have "map_of result k
               = (if k \<in> snd ` set fs then Some (obj_get record k) else map_of [] k)"
      unfolding result_def by (rule collect_lookup)
    then show ?thesis
      by (simp add: names)
  qed
  have present: "map_of record k = Some (obj_get record k)"
    if "k \<in> set (header_names h hs)" for k
  proof (cases "map_of record k")
    case None
    then have "obj_get record k = obj_get [] k"
      by (simp add: obj_get_def)
    then have "\<not> truthy (obj_get record k)"
      using that assms(3) by simp
    with assms(2) that show ?thesis by blast
  next
    case (Some v)
    then show ?thesis by (simp add: obj_get_def)
  qed
  have restricted: "map_of result = map_of record |` set (header_names h hs)"
    by (rule ext) (simp add: lookup present restrict_map_def)
  have whole: "map_of result = map_of record"
    if "set (map fst record) = set (header_names h hs)"
  proof (rule ext)
    fix k
    show "map_of result k = map_of record k"
    proof (cases "k \<in> set (header_names h hs)")
      case True
      then show ?thesis by (simp add: lookup present)
    next
      case False
      with that have "k \<notin> fst ` set record" by simp
      then have "map_of record k = None"
        by (simp add: map_of_eq_None_iff)
      with False show ?thesis by (simp add: lookup)
    qed
  qed
  show ?thesis
    using ser des dist restricted whole by blast
qed

theorem serialize_deserialize_roundtrip_witness:
  "header_names plain_engine [(1, JStr ''name''), (2, JNum (Fin 2024))] = [''name'', ''2024'']
   \<and> (\<exists>cells result.
         serializeRow plain_engine [(1, JStr ''name''), (2, JNum (Fin 2024))]
            (plain [(''2024'', JNum (Fin 30)), (''name'', JStr ''Zoe'')])
            [JStr ''Bob'', JNum (Fin 35)]
           = Inr cells
         \<and> deserializeRow plain_engine [(1, JStr ''name''), (2, JNum (Fin 2024))] (plain [])
              cells []
           = Inr (plain result)
         \<and> map_of result = map_of [(''2024'', JNum (Fin 30)), (''name'', JStr ''Zoe'')])"
proof -
  define hs where "hs = [(1::nat, JStr ''name''), (2, JNum (Fin 2024))]"
  have names: "header_names plain_engine hs = [''name'', ''2024'']"
    unfolding hs_def by code_simp
  have a: "map fst hs = [1..<Suc (length hs)]"
    unfolding hs_def by code_simp
  have b: "\<forall>name \<in> set (header_names plain_engine hs).
             truthy (obj_get [(''2024'', JNum (Fin 30)), (''name'', JStr ''Zoe'')] name)"
    unfolding names by (simp add: obj_get_def)
  have c: "\<forall>name \<in> set (header_names plain_engine hs). obj_get [] name = JUndefined"
    unfolding names by (simp add: obj_get_def inherited_def prototype_functions_def)
  have d: "set (map fst [(''2024'', JNum (Fin 30)), (''name'', JStr ''Zoe'')])
           = set (header_names plain_engine hs)"
    unfolding names by auto
  show ?thesis
    using names d serialize_deserialize_roundtrip [OF a b c, of "[JStr ''Bob'', JNum (Fin 35)]"]
    unfolding hs_def by blast
qed

text \<open>
  The claim C3 as it is written fails: a record with the age \<open>0\<close> under the headers name and
  age comes back with the age of the current row, and with the empty string when there
  is no current row; and under the single header \<^verbatim>\<open>constructor\<close> the record with the field
  \<^verbatim>\<open>constructor\<close> comes back with the function that every object inherits under that name.
\<close>

theorem serialize_deserialize_counterexample:
  "serializeRow plain_engine [(1, JStr ''name''), (2, JStr ''age'')]
      (plain [(''name'', JStr ''Zoe''), (''age'', JNum (Fin 0))]) [JStr ''Bob'', JNum (Fin 35)]
     = Inr [JStr ''Zoe'', JNum (Fin 35)]
   \<and> deserializeRow plain_engine [(1, JStr ''name''), (2, JStr ''age'')] (plain [])
      [JStr ''Zoe'', JNum (Fin 35)] []
     = Inr (plain [(''name'', JStr ''Zoe''), (''age'', JNum (Fin 35))])
   \<and> serializeRow plain_engine [(1, JStr ''name''), (2, JStr ''age'')]
      (plain [(''name'', JStr ''Zoe''), (''age'', JNum (Fin 0))]) []
     = Inr [JStr ''Zoe'', JStr '''']
   \<and> deserializeRow plain_engine [(1, JStr ''name''), (2, JStr ''age'')] (plain [])
      [JStr ''Zoe'', JStr ''''] []
     = Inr (plain [(''name'', JStr ''Zoe''), (''age'', JStr '''')])
   \<and> serializeRow plain_engine [(1, JStr ''constructor'')]
      (plain [(''constructor'', JStr ''x'')]) [JStr ''y'']
     = Inr [JStr ''x'']
   \<and> deserializeRow plain_engine [(1, JStr ''constructor'')] (plain []) [JStr ''x''] []
     = Inr (plain [(''constructor'', JBuiltin ''constructor'')])"
  by code_simp

text \<open>
  C8, amended: for a record that has no own property named \<^verbatim>\<open>__proto__\<close> and requested
  names that all are headers, deserialize never throws and returns a plain object whose
  keys are exactly the effective names (the requested names if there are any, else the
  property names of all headers) other than \<^verbatim>\<open>__proto__\<close>, for which no key is made, each
  once and no other; the keys stand in header position order when none of the effective
  names is an array index (a canonical decimal numeral below \<open>2^32 - 1\<close>, which the engine
  lists first and in numeric order); and a name at which the record reads \<open>undefined\<close>
  (it has no field of that name and inherits none) and for which the current row has no
  entry gets the value \<open>undefined\<close>.
\<close>

theorem deserialize_keys:
  assumes "\<forall>name \<in> set requested. JStr name \<in> snd ` set hs"
    and "map_of record ''__proto__'' = None"
  shows "\<exists>result.
           deserializeRow h hs (plain record) currentRow requested = Inr (plain result)
           \<and> set (map fst result) = set (effective_names h hs requested) - {''__proto__''}
           \<and> distinct (map fst result)
           \<and> (requested \<noteq> [] \<longrightarrow> set (effective_names h hs requested) = set requested)
           \<and> effective_names h hs [] = header_names h hs
           \<and> ((\<forall>name \<in> set (effective_names h hs requested). \<not> is_array_index name)
                \<longrightarrow> map fst result
                      = first_occurrences
                          (filter (\<lambda>name. name \<noteq> ''__proto__'')
                             (effective_names h hs requested)))
           \<and> (\<forall>name \<in> set (effective_names h hs requested).
                  obj_get record name = JUndefined
                  \<and> (\<forall>i. (i, name) \<in> set (selected_fields h hs requested)
                          \<longrightarrow> length currentRow < i)
                  \<longrightarrow> map_of result name = Some JUndefined)"
proof -
  define fs where
    "fs = filter (\<lambda>(index, name). name \<noteq> ''__proto__'') (selected_fields h hs requested)"
  define result where
    "result = foldl (\<lambda>total (index, name).
                       obj_set name
                         (js_or (obj_get record name) (arr_get currentRow (int index - 1)))
                         total)
                    [] fs"
  have names: "map snd fs
               = filter (\<lambda>name. name \<noteq> ''__proto__'') (effective_names h hs requested)"
    by (simp add: fs_def effective_names_def filter_map o_def split_def)
  have des: "deserializeRow h hs (plain record) currentRow requested = Inr (plain result)"
    using deserializeRow_plain [OF assms] by (simp add: result_def fs_def plain_def)
  have "fst ` set result = snd ` set fs"
    using collect_keys [of _ "[]" fs] by (simp add: result_def)
  also have "\<dots> = set (map snd fs)"
    by simp
  also have "\<dots> = set (effective_names h hs requested) - {''__proto__''}"
    unfolding names by auto
  finally have keys: "set (map fst result) = set (effective_names h hs requested) - {''__proto__''}"
    by simp
  have dist: "distinct (map fst result)"
    unfolding result_def by (rule collect_distinct) simp
  have all_requested: "set (effective_names h hs requested) = set requested"
    if "requested \<noteq> []"
    using that assms(1) by (rule effective_names_requested)
  have ordered: "map fst result
                 = first_occurrences (filter (\<lambda>name. name \<noteq> ''__proto__'')
                                        (effective_names h hs requested))"
    if "\<forall>name \<in> set (effective_names h hs requested). \<not> is_array_index name"
  proof -
    have "\<forall>name \<in> snd ` set fs. \<not> is_array_index name"
      using that by (auto simp: fs_def effective_names_def)
    then have "map fst result
               = foldl (\<lambda>seen x. if x \<in> set seen then seen else seen @ [x])
                   (map fst ([] :: obj)) (map snd fs)"
      unfolding result_def by (rule collect_keys_plain)
    then show ?thesis
      by (simp add: first_occurrences_def names)
  qed
  have missing: "map_of result name = Some JUndefined"
    if "name \<in> set (effective_names h hs requested)" and "obj_get record name = JUndefined"
      and "\<forall>i. (i, name) \<in> set (selected_fields h hs requested) \<longrightarrow> length currentRow < i"
    for name
  proof -
    have "name \<noteq> ''__proto__''"
      using assms(2) that(2) by (rule obj_get_undefined_not_proto)
    then have mem: "name \<in> snd ` set fs"
      using that(1) by (force simp: fs_def effective_names_def)
    have "\<forall>i. (i, name) \<in> set fs \<longrightarrow>
            js_or (obj_get record name) (arr_get currentRow (int i - 1)) = JUndefined"
      using that(2,3) by (auto simp: fs_def js_or_def arr_get_def)
    then have "map_of result name
               = (if name \<in> snd ` set fs then Some JUndefined else map_of [] name)"
      unfolding result_def by (rule collect_lookup)
    with mem show ?thesis by simp
  qed
  show ?thesis
    using des keys dist all_requested effective_names_all [of h hs] ordered missing by blast
qed

theorem deserialize_keys_witness:
  "map_of ([] :: obj) ''__proto__'' = None
   \<and> effective_names plain_engine
        [(1, JStr ''name''), (2, JStr ''__proto__''), (3, JStr ''age'')] []
     = [''name'', ''__proto__'', ''age'']
   \<and> (\<exists>result.
         deserializeRow plain_engine
            [(1, JStr ''name''), (2, JStr ''__proto__''), (3, JStr ''age'')]
            (plain []) [JStr ''Bob'', JStr ''x''] []
           = Inr (plain result)
         \<and> map fst result = [''name'', ''age'']
         \<and> map_of result ''age'' = Some JUndefined)
   \<and> (\<exists>result.
         deserializeRow plain_engine (headers people_manager) (plain [])
            [JStr ''Bob'', JNum (Fin 35), JNum (Fin 2), JBool True] [''age'', ''name'']
           = Inr (plain result)
         \<and> set (map fst result) = set [''age'', ''name'']
         \<and> map fst result = [''name'', ''age''])"
proof -
  define hs where "hs = [(1::nat, JStr ''name''), (2, JStr ''__proto__''), (3, JStr ''age'')]"
  have a: "\<forall>name \<in> set ([] :: string list). JStr name \<in> snd ` set hs"
    by simp
  have b: "map_of ([] :: obj) ''__proto__'' = None"
    by simp
  have fields: "selected_fields plain_engine hs []
                = [(1, ''name''), (2, ''__proto__''), (3, ''age'')]"
    unfolding hs_def by code_simp
  have names: "effective_names plain_engine hs [] = [''name'', ''__proto__'', ''age'']"
    by (simp add: effective_names_def fields)
  have c: "\<forall>name \<in> set (effective_names plain_engine hs []). \<not> is_array_index name"
    by (simp add: names is_array_index_def is_digit_def)
  have d: "first_occurrences (filter (\<lambda>name. name \<noteq> ''__proto__'')
                                (effective_names plain_engine hs []))
           = [''name'', ''age'']"
    by (simp add: names first_occurrences_def)
  have e: "obj_get [] ''age'' = JUndefined"
    by (simp add: obj_get_def inherited_def prototype_functions_def)
  have f: "\<forall>i. (i, ''age'') \<in> set (selected_fields plain_engine hs [])
             \<longrightarrow> length [JStr ''Bob'', JStr ''x''] < i"
    by (simp add: fields)
  have g: "''age'' \<in> set (effective_names plain_engine hs [])"
    by (simp add: names)
  obtain result where result:
    "deserializeRow plain_engine hs (plain []) [JStr ''Bob'', JStr ''x''] [] = Inr (plain result)"
    "(\<forall>name \<in> set (effective_names plain_engine hs []). \<not> is_array_index name)
       \<longrightarrow> map fst result
             = first_occurrences (filter (\<lambda>name. name \<noteq> ''__proto__'')
                                    (effective_names plain_engine hs []))"
    "\<forall>name \<in> set (effective_names plain_engine hs []).
        obj_get [] name = JUndefined
        \<and> (\<forall>i. (i, name) \<in> set (selected_fields plain_engine hs [])
                \<longrightarrow> length [JStr ''Bob'', JStr ''x''] < i)
        \<longrightarrow> map_of result name = Some JUndefined"
    using deserialize_keys [OF a b, of plain_engine "[JStr ''Bob'', JStr ''x'']"]
    by blast
  have order: "map fst result = [''name'', ''age'']"
    using result(2) c d by simp
  have missing: "map_of result ''age'' = Some JUndefined"
    using result(3) e f g by blast
  have first: "\<exists>result.
         deserializeRow plain_engine hs (plain []) [JStr ''Bob'', JStr ''x''] []
           = Inr (plain result)
         \<and> map fst result = [''name'', ''age'']
         \<and> map_of result ''age'' = Some JUndefined"
    by (rule exI [of _ result]) (simp add: result(1) order missing)
  define cur where "cur = [JStr ''Bob'', JNum (Fin 35), JNum (Fin 2), JBool True]"
  have a2: "\<forall>name \<in> set [''age'', ''name'']. JStr name \<in> snd ` set (headers people_manager)"
    by (simp add: headers_people)
  have fields2: "selected_fields plain_engine (headers people_manager) [''age'', ''name'']
                 = [(1, ''name''), (2, ''age'')]"
    by code_simp
  have names2: "effective_names plain_engine (headers people_manager) [''age'', ''name'']
                = [''name'', ''age'']"
    by (simp add: effective_names_def fields2)
  have c2: "\<forall>name \<in> set (effective_names plain_engine (headers people_manager)
                            [''age'', ''name'']). \<not> is_array_index name"
    by (simp add: names2 is_array_index_def is_digit_def)
  have d2: "first_occurrences
              (filter (\<lambda>name. name \<noteq> ''__proto__'')
                 (effective_names plain_engine (headers people_manager) [''age'', ''name'']))
            = [''name'', ''age'']"
    by (simp add: names2 first_occurrences_def)
  obtain result2 where result2:
    "deserializeRow plain_engine (headers people_manager) (plain []) cur [''age'', ''name'']
       = Inr (plain result2)"
    "set (map fst result2)
       = set (effective_names plain_engine (headers people_manager) [''age'', ''name''])
         - {''__proto__''}"
    "[''age'', ''name''] \<noteq> [] \<longrightarrow>
       set (effective_names plain_engine (headers people_manager) [''age'', ''name''])
         = set [''age'', ''name'']"
    "(\<forall>name \<in> set (effective_names plain_engine (headers people_manager)
                       [''age'', ''name'']). \<not> is_array_index name)
       \<longrightarrow> map fst result2
             = first_occurrences
                 (filter (\<lambda>name. name \<noteq> ''__proto__'')
                    (effective_names plain_engine (headers people_manager) [''age'', ''name'']))"
    using deserialize_keys [OF a2 b, of plain_engine cur]
    by blast
  have order2: "map fst result2 = [''name'', ''age'']"
    using result2(4) c2 d2 by simp
  have keys2: "set (map fst result2) = set [''age'', ''name'']"
    using result2(2,3) by auto
  have second: "\<exists>result.
         deserializeRow plain_engine (headers people_manager) (plain [])
            [JStr ''Bob'', JNum (Fin 35), JNum (Fin 2), JBool True] [''age'', ''name'']
           = Inr (plain result)
         \<and> set (map fst result) = set [''age'', ''name'']
         \<and> map fst result = [''name'', ''age'']"
  proof (intro exI [of _ result2] conjI)
    show "deserializeRow plain_engine (headers people_manager) (plain [])
            [JStr ''Bob'', JNum (Fin 35), JNum (Fin 2), JBool True] [''age'', ''name'']
          = Inr (plain result2)"
      using result2(1) by (simp add: cur_def)
    show "set (map fst result2) = set [''age'', ''name'']"
      by (rule keys2)
    show "map fst result2 = [''name'', ''age'']"
      by (rule order2)
  qed
  show ?thesis
    using b names first second unfolding hs_def by simp
qed

text \<open>
  The claim C8 as it is written fails in the order of the keys: under the headers name,
  2024, 2023 the record that comes back lists 2023 and 2024 before name. It also fails for
  a header named \<^verbatim>\<open>__proto__\<close>, which gives no key, and for a header named \<^verbatim>\<open>toString\<close>,
  whose value is the inherited function and not \<open>undefined\<close> when the record and the current
  row have nothing for it.
\<close>

theorem deserialize_keys_counterexample:
  "deserializeRow plain_engine [(1, JStr ''name''), (2, JStr ''2024''), (3, JStr ''2023'')]
      (plain []) [JStr ''Ann'', JNum (Fin 5), JNum (Fin 7)] []
     = Inr (plain [(''2023'', JNum (Fin 7)), (''2024'', JNum (Fin 5)), (''name'', JStr ''Ann'')])
   \<and> header_names plain_engine [(1, JStr ''name''), (2, JStr ''2024''), (3, JStr ''2023'')]
     = [''name'', ''2024'', ''2023'']
   \<and> first_occurrences [''name'', ''2024'', ''2023''] = [''name'', ''2024'', ''2023'']
   \<and> deserializeRow plain_engine [(1, JStr ''name''), (2, JStr ''__proto__'')] (plain [])
        [JStr ''Ann'', JStr ''x''] []
     = Inr (plain [(''name'', JStr ''Ann'')])
   \<and> deserializeRow plain_engine [(1, JStr ''name''), (2, JStr ''toString'')] (plain [])
        [JStr ''Ann''] []
     = Inr (plain [(''name'', JStr ''Ann''), (''toString'', JBuiltin ''toString'')])"
  by code_simp

end
